theory Spec2Isabelle
  imports Main "HOL-Library.AList" "HOL-Library.Sublist"
begin

section \<open>Python strings\<close>

text \<open>
  Python strings are modelled as \<open>string\<close>. \<open>is_space\<close> is \<open>str.isspace\<close> on one
  character: the code points below 256 that Python counts as whitespace.
\<close>

definition is_space :: "char \<Rightarrow> bool" where
  "is_space c = (c \<in> set [CHR 0x09, CHR 0x0A, CHR 0x0B, CHR 0x0C, CHR 0x0D,
                           CHR 0x1C, CHR 0x1D, CHR 0x1E, CHR 0x1F, CHR 0x20,
                           CHR 0x85, CHR 0xA0])"

definition strip :: "string \<Rightarrow> string" where
  "strip s = rev (dropWhile is_space (rev (dropWhile is_space s)))"

definition is_digit :: "char \<Rightarrow> bool" where
  "is_digit c = (c \<in> set ''0123456789'')"

definition startswith :: "string \<Rightarrow> string \<Rightarrow> bool" where
  "startswith s p = (take (length p) s = p)"

section \<open>Failover chain (router/failover.py)\<close>

text \<open>
  \<open>FailoverService.build_failover_chain\<close>. The optional fallback is a \<open>string option\<close>;
  the source tests it for truth, so the empty string counts as no fallback.
\<close>

definition build_failover_chain :: "string \<Rightarrow> string option \<Rightarrow> string list \<Rightarrow> string list" where
  "build_failover_chain primary fallback available =
     (let chain = [];
          chain = (if primary \<in> set available then chain @ [primary] else chain);
          chain = (case fallback of
                     None \<Rightarrow> chain
                   | Some f \<Rightarrow> if f \<noteq> [] \<and> f \<in> set available \<and> f \<notin> set chain
                              then chain @ [f] else chain)
      in fold (\<lambda>provider chain. if provider \<notin> set chain then chain @ [provider] else chain)
              available chain)"

section \<open>Model mapping (core/converter.py)\<close>

text \<open>
  \<open>dated_model\<close> is the match of
  \<^verbatim>\<open>^(claude-(?:opus|sonnet|haiku)-4-5)-\d{8}$\<close> on a stripped string; it returns group 1.
\<close>

definition dated_model :: "string \<Rightarrow> string option" where
  "dated_model s =
     find (\<lambda>p. startswith s (p @ ''-'') \<and>
                (let d = drop (length p + 1) s in length d = 8 \<and> list_all is_digit d))
          [''claude-opus-4-5'', ''claude-sonnet-4-5'', ''claude-haiku-4-5'']"

definition supported_models :: "string list" where
  "supported_models =
     [''gemini-2.5-flash'', ''gemini-2.5-flash-thinking'', ''gemini-2.5-pro'',
      ''gemini-3-pro-low'', ''gemini-3-pro-high'', ''gemini-3-pro-image'',
      ''gemini-2.5-flash-lite'', ''gemini-2.5-flash-image'', ''claude-sonnet-4-5'',
      ''claude-sonnet-4-5-thinking'', ''claude-opus-4-5-thinking'', ''gpt-oss-120b-medium'']"

definition model_mapping :: "(string \<times> string) list" where
  "model_mapping =
     [(''claude-sonnet-4.5'', ''claude-sonnet-4-5''),
      (''claude-3-5-sonnet-20241022'', ''claude-sonnet-4-5''),
      (''claude-3-5-sonnet-20240620'', ''claude-sonnet-4-5''),
      (''claude-opus-4'', ''gemini-3-pro-high''),
      (''claude-haiku-4'', ''claude-haiku-4.5''),
      (''claude-3-haiku-20240307'', ''gemini-2.5-flash'')]"

definition map_claude_model_to_gemini :: "string \<Rightarrow> string" where
  "map_claude_model_to_gemini claude_model =
     (let claude_model = strip claude_model in
      if claude_model = [] then ''claude-sonnet-4-5''
      else
        let claude_model = (case dated_model claude_model of Some g \<Rightarrow> g | None \<Rightarrow> claude_model) in
        if claude_model = ''claude-opus-4-5'' then ''claude-opus-4-5-thinking''
        else if claude_model = ''claude-sonnet-4-5'' then ''claude-sonnet-4-5''
        else if claude_model = ''claude-haiku-4-5'' then ''gemini-2.5-flash''
        else if claude_model \<in> set supported_models then claude_model
        else (case map_of model_mapping claude_model of
                Some g \<Rightarrow> g
              | None \<Rightarrow> ''claude-sonnet-4-5''))"

section \<open>JSON values and Python built-ins\<close>

text \<open>
  A decoded JSON value, as Python holds it. A \<open>dict\<close> is an association list in insertion
  order, read with \<open>map_of\<close> and written with \<open>AList.update\<close> (replace in place, or
  append). A float is kept as its \<open>repr\<close> text, which is all the code below reads of it.
  A string is the list of its code points, for code points below 256.
\<close>

datatype json =
    JNull
  | JBool bool
  | JInt int
  | JFloat string
  | JStr string
  | JList "json list"
  | JDict "(string \<times> json) list"

type_synonym dict = "(string \<times> json) list"

datatype py_error = TypeError | AttributeError | KeyError | IndexError | ValueError | ReError

definition bind_res :: "'e + 'a \<Rightarrow> ('a \<Rightarrow> 'e + 'b) \<Rightarrow> 'e + 'b" where
  "bind_res m f = (case m of Inl e \<Rightarrow> Inl e | Inr x \<Rightarrow> f x)"

text \<open>Truth value of a Python object: \<open>bool(v)\<close>.\<close>

fun truthy :: "json \<Rightarrow> bool" where
  "truthy JNull = False"
| "truthy (JBool b) = b"
| "truthy (JInt i) = (i \<noteq> 0)"
| "truthy (JFloat r) = (r \<noteq> ''0.0'' \<and> r \<noteq> ''-0.0'')"
| "truthy (JStr s) = (s \<noteq> [])"
| "truthy (JList xs) = (xs \<noteq> [])"
| "truthy (JDict kvs) = (kvs \<noteq> [])"

text \<open>\<open>d.get(k, default)\<close>; \<open>d.get(k)\<close> is \<open>dict_get d k JNull\<close>.\<close>

definition dict_get :: "dict \<Rightarrow> string \<Rightarrow> json \<Rightarrow> json" where
  "dict_get d k dflt = (case map_of d k of Some v \<Rightarrow> v | None \<Rightarrow> dflt)"

definition is_list :: "json \<Rightarrow> bool" where
  "is_list v = (case v of JList _ \<Rightarrow> True | _ \<Rightarrow> False)"

definition list_items :: "json \<Rightarrow> json list" where
  "list_items v = (case v of JList items \<Rightarrow> items | _ \<Rightarrow> [])"

text \<open>\<open>isinstance(v, int)\<close> holds for ints and bools; \<open>int_value\<close> is the number then.\<close>

definition is_int :: "json \<Rightarrow> bool" where
  "is_int v = (case v of JInt _ \<Rightarrow> True | JBool _ \<Rightarrow> True | _ \<Rightarrow> False)"

definition int_value :: "json \<Rightarrow> int" where
  "int_value v = (case v of JInt i \<Rightarrow> i | JBool b \<Rightarrow> (if b then 1 else 0) | _ \<Rightarrow> 0)"

text \<open>Iterating a value: a list gives its items, a string its characters, a dict its keys.\<close>

definition py_iter :: "json \<Rightarrow> py_error + json list" where
  "py_iter v =
     (case v of
        JList xs \<Rightarrow> Inr xs
      | JStr s \<Rightarrow> Inr (map (\<lambda>c. JStr [c]) s)
      | JDict kvs \<Rightarrow> Inr (map (\<lambda>kv. JStr (fst kv)) kvs)
      | _ \<Rightarrow> Inl TypeError)"

subsection \<open>\<open>str\<close> and \<open>repr\<close>\<close>

definition digit_char :: "nat \<Rightarrow> char" where
  "digit_char n = ''0123456789'' ! n"

text \<open>\<open>str\<close> of an integer: decimal digits, most significant first, after a minus sign.\<close>

function decimal_digits :: "nat \<Rightarrow> string \<Rightarrow> string" where
  "decimal_digits n acc =
     (let acc' = digit_char (n mod 10) # acc
      in if n div 10 = 0 then acc' else decimal_digits (n div 10) acc')"
  by pat_completeness auto
termination
  by (relation "measure fst") auto

definition str_int :: "int \<Rightarrow> string" where
  "str_int i = (if 0 \<le> i then decimal_digits (nat i) [] else CHR ''-'' # decimal_digits (nat (- i)) [])"

definition join :: "string \<Rightarrow> string list \<Rightarrow> string" where
  "join sep xs = concat (case xs of [] \<Rightarrow> [] | x # rest \<Rightarrow> x # map (\<lambda>y. sep @ y) rest)"

definition hex_digit :: "nat \<Rightarrow> char" where
  "hex_digit n = ''0123456789abcdef'' ! n"

definition printable :: "char \<Rightarrow> bool" where
  "printable c = (let n = (of_char c :: nat) in 32 \<le> n \<and> n < 127 \<or> 161 \<le> n \<and> n \<noteq> 173)"

definition repr_char :: "char \<Rightarrow> char \<Rightarrow> string" where
  "repr_char quote c =
     (if c = quote \<or> c = CHR 0x5C then [CHR 0x5C, c]
      else if c = CHR 0x09 then [CHR 0x5C, CHR ''t'']
      else if c = CHR 0x0A then [CHR 0x5C, CHR ''n'']
      else if c = CHR 0x0D then [CHR 0x5C, CHR ''r'']
      else if printable c then [c]
      else [CHR 0x5C, CHR ''x'', hex_digit (of_char c div 16), hex_digit (of_char c mod 16)])"

definition repr_str :: "string \<Rightarrow> string" where
  "repr_str s =
     (let quote = (if CHR 0x27 \<in> set s \<and> CHR 0x22 \<notin> set s then CHR 0x22 else CHR 0x27)
      in [quote] @ concat (map (repr_char quote) s) @ [quote])"

fun py_repr :: "json \<Rightarrow> string" where
  "py_repr JNull = ''None''"
| "py_repr (JBool b) = (if b then ''True'' else ''False'')"
| "py_repr (JInt i) = str_int i"
| "py_repr (JFloat r) = r"
| "py_repr (JStr s) = repr_str s"
| "py_repr (JList xs) = ''['' @ join '', '' (map py_repr xs) @ '']''"
| "py_repr (JDict kvs) =
     ''{'' @ join '', '' (map (\<lambda>(k, v). repr_str k @ '': '' @ py_repr v) kvs) @ ''}''"

definition py_str :: "json \<Rightarrow> string" where
  "py_str v = (case v of JStr s \<Rightarrow> s | _ \<Rightarrow> py_repr v)"

definition lower_char :: "char \<Rightarrow> char" where
  "lower_char c =
     (let n = (of_char c :: nat)
      in if 65 \<le> n \<and> n \<le> 90 \<or> 192 \<le> n \<and> n \<le> 222 \<and> n \<noteq> 215
         then char_of (n + 32) else c)"

definition lower :: "string \<Rightarrow> string" where
  "lower s = map lower_char s"

section \<open>Schema sanitizer (core/converter.py)\<close>

definition unsupported_keys :: "string list" where
  "unsupported_keys =
     [''$schema'', ''$id'', ''$ref'', ''$defs'', ''definitions'', ''title'', ''example'',
      ''examples'', ''readOnly'', ''writeOnly'', ''default'', ''exclusiveMaximum'',
      ''exclusiveMinimum'', ''oneOf'', ''anyOf'', ''allOf'', ''const'', ''additionalItems'',
      ''contains'', ''patternProperties'', ''dependencies'', ''propertyNames'', ''if'',
      ''then'', ''else'', ''contentEncoding'', ''contentMediaType'']"

definition validation_fields :: "(string \<times> string) list" where
  "validation_fields =
     [(''minLength'', ''minLength''), (''maxLength'', ''maxLength''), (''minimum'', ''minimum''),
      (''maximum'', ''maximum''), (''minItems'', ''minItems''), (''maxItems'', ''maxItems'')]"

definition fields_to_remove :: "string list" where
  "fields_to_remove = [''additionalProperties'']"

text \<open>
  The two tests on an element \<open>t\<close> of a \<open>type\<close> array:
  \<^verbatim>\<open>isinstance(t, str) and t.strip() and t.strip().lower() == "null"\<close> and its \<open>!=\<close> twin.
\<close>

definition is_null_type :: "json \<Rightarrow> bool" where
  "is_null_type t =
     (case t of JStr s \<Rightarrow> strip s \<noteq> [] \<and> lower (strip s) = ''null'' | _ \<Rightarrow> False)"

definition is_non_null_type :: "json \<Rightarrow> bool" where
  "is_non_null_type t =
     (case t of JStr s \<Rightarrow> strip s \<noteq> [] \<and> lower (strip s) \<noteq> ''null'' | _ \<Rightarrow> False)"

definition non_null_types :: "json list \<Rightarrow> string list" where
  "non_null_types value =
     concat (map (\<lambda>t. case t of JStr s \<Rightarrow> if is_non_null_type t then [strip s] else []
                             | _ \<Rightarrow> []) value)"

definition schema_validations :: "dict \<Rightarrow> string list" where
  "schema_validations schema =
     concat (map (\<lambda>(field, label). case map_of schema field of
                                      Some v \<Rightarrow> [label @ '': '' @ py_str v]
                                    | None \<Rightarrow> [])
                 validation_fields)"

fun clean_json_schema :: "json \<Rightarrow> json" where
  "clean_json_schema (JDict schema) =
     (let validations = schema_validations schema;
          cleaned = fold (\<lambda>(key, value) cleaned.
              if key \<in> set unsupported_keys \<or> key \<in> set fields_to_remove
                 \<or> key \<in> fst ` set validation_fields
              then cleaned
              else if key = ''type'' \<and> is_list value then
                (let has_null = list_ex is_null_type (list_items value);
                     cleaned = AList.update key
                       (case non_null_types (list_items value) of
                          [] \<Rightarrow> JStr ''string'' | t # _ \<Rightarrow> JStr t)
                       cleaned
                 in if has_null then AList.update ''nullable'' (JBool True) cleaned else cleaned)
              else if key = ''description'' \<and> validations \<noteq> [] then
                AList.update key
                  (JStr (py_str value @ '' ('' @ join '', '' validations @ '')'')) cleaned
              else (case value of
                  JDict _ \<Rightarrow> AList.update key (clean_json_schema value) cleaned
                | JList items \<Rightarrow>
                    AList.update key
                      (JList (map (\<lambda>item. case item of JDict _ \<Rightarrow> clean_json_schema item
                                                        | _ \<Rightarrow> item) items))
                      cleaned
                | _ \<Rightarrow> AList.update key value cleaned))
            schema [];
          cleaned = (if validations \<noteq> [] \<and> ''description'' \<notin> fst ` set cleaned
                     then AList.update ''description''
                            (JStr (''Validation: '' @ join '', '' validations)) cleaned
                     else cleaned);
          cleaned = (if ''properties'' \<in> fst ` set cleaned \<and> ''type'' \<notin> fst ` set cleaned
                     then AList.update ''type'' (JStr ''object'') cleaned
                     else cleaned)
      in JDict cleaned)"
| "clean_json_schema schema = schema"

section \<open>Request translation (core/converter.py)\<close>

definition DEFAULT_THINKING_BUDGET :: int where
  "DEFAULT_THINKING_BUDGET = 1024"

definition DEFAULT_TEMPERATURE :: json where
  "DEFAULT_TEMPERATURE = JFloat ''0.4''"

definition is_non_whitespace_text :: "json \<Rightarrow> bool" where
  "is_non_whitespace_text value = (if value = JNull then False else strip (py_str value) \<noteq> [])"

definition get_thinking_config :: "json \<Rightarrow> dict" where
  "get_thinking_config thinking =
     (case thinking of
        JNull \<Rightarrow> [(''includeThoughts'', JBool True), (''thinkingBudget'', JInt DEFAULT_THINKING_BUDGET)]
      | JBool b \<Rightarrow>
          if b then [(''includeThoughts'', JBool True), (''thinkingBudget'', JInt DEFAULT_THINKING_BUDGET)]
          else [(''includeThoughts'', JBool False)]
      | JDict d \<Rightarrow>
          (let thinking_type = dict_get d ''type'' (JStr ''enabled'');
               is_enabled = (thinking_type = JStr ''enabled'')
           in if \<not> is_enabled then [(''includeThoughts'', JBool False)]
              else let budget = dict_get d ''budget_tokens'' (JInt DEFAULT_THINKING_BUDGET)
                   in [(''includeThoughts'', JBool True), (''thinkingBudget'', budget)])
      | _ \<Rightarrow> [(''includeThoughts'', JBool True), (''thinkingBudget'', JInt DEFAULT_THINKING_BUDGET)])"

definition extract_tool_result_output :: "json \<Rightarrow> string" where
  "extract_tool_result_output content =
     (case content of
        JList items \<Rightarrow>
          (case items of
             [] \<Rightarrow> []
           | first # _ \<Rightarrow>
               (case first of
                  JDict d \<Rightarrow>
                    if dict_get d ''type'' JNull = JStr ''text''
                    then py_str (dict_get d ''text'' (JStr []))
                    else py_str first
                | _ \<Rightarrow> py_str first))
      | JNull \<Rightarrow> []
      | _ \<Rightarrow> py_str content)"

text \<open>
  One pass of the loop over the content blocks of a message: the parts the block appends.
  \<open>dumps\<close> stands for \<open>json.dumps(item, ensure_ascii=False)\<close>.
\<close>

definition convert_block :: "(json \<Rightarrow> string) \<Rightarrow> bool \<Rightarrow> json \<Rightarrow> py_error + json list" where
  "convert_block dumps include_thinking item =
     (case item of
        JDict d \<Rightarrow>
          (let item_type = dict_get d ''type'' JNull in
           if item_type = JStr ''thinking'' then
             (if \<not> include_thinking then Inr []
              else let signature = dict_get d ''signature'' JNull in
                if \<not> truthy signature then Inr []
                else let thinking_text = dict_get d ''thinking'' (JStr []);
                         thinking_text = (if thinking_text = JNull then JStr [] else thinking_text)
                     in Inr [JDict [(''text'', JStr (py_str thinking_text)), (''thought'', JBool True),
                                    (''thoughtSignature'', signature)]])
           else if item_type = JStr ''redacted_thinking'' then
             (if \<not> include_thinking then Inr []
              else let signature = dict_get d ''signature'' JNull in
                if \<not> truthy signature then Inr []
                else let thinking_text = dict_get d ''thinking'' JNull;
                         thinking_text = (if thinking_text = JNull then dict_get d ''data'' (JStr [])
                                          else thinking_text)
                     in Inr [JDict [(''text'', JStr (py_str (if truthy thinking_text then thinking_text
                                                              else JStr []))),
                                    (''thought'', JBool True), (''thoughtSignature'', signature)]])
           else if item_type = JStr ''text'' then
             (let text = dict_get d ''text'' (JStr []) in
              if is_non_whitespace_text text then Inr [JDict [(''text'', JStr (py_str text))]]
              else Inr [])
           else if item_type = JStr ''image'' then
             (let source = dict_get d ''source'' (JDict []);
                  source = (if truthy source then source else JDict [])
              in case source of
                   JDict src \<Rightarrow>
                     if dict_get src ''type'' JNull = JStr ''base64''
                     then Inr [JDict [(''inlineData'',
                                 JDict [(''mimeType'', dict_get src ''media_type'' (JStr ''image/png'')),
                                        (''data'', dict_get src ''data'' (JStr []))])]]
                     else Inr []
                 | _ \<Rightarrow> Inl AttributeError)
           else if item_type = JStr ''tool_use'' then
             (let args = dict_get d ''input'' (JDict []) in
              Inr [JDict [(''functionCall'',
                     JDict [(''id'', dict_get d ''id'' JNull), (''name'', dict_get d ''name'' JNull),
                            (''args'', if truthy args then args else JDict [])])]])
           else if item_type = JStr ''tool_result'' then
             (let output = extract_tool_result_output (dict_get d ''content'' JNull) in
              Inr [JDict [(''functionResponse'',
                     JDict [(''id'', dict_get d ''tool_use_id'' JNull),
                            (''name'', dict_get d ''name'' (JStr [])),
                            (''response'', JDict [(''output'', JStr output)])])]])
           else Inr [JDict [(''text'', JStr (dumps item))]])
      | _ \<Rightarrow> if is_non_whitespace_text item then Inr [JDict [(''text'', JStr (py_str item))]]
             else Inr [])"

fun convert_blocks :: "(json \<Rightarrow> string) \<Rightarrow> bool \<Rightarrow> json list \<Rightarrow> py_error + json list" where
  "convert_blocks dumps include_thinking [] = Inr []"
| "convert_blocks dumps include_thinking (item # raw_content) =
     bind_res (convert_block dumps include_thinking item) (\<lambda>parts.
       bind_res (convert_blocks dumps include_thinking raw_content) (\<lambda>more. Inr (parts @ more)))"

definition convert_message :: "(json \<Rightarrow> string) \<Rightarrow> bool \<Rightarrow> json \<Rightarrow> py_error + json list" where
  "convert_message dumps include_thinking msg =
     (case msg of
        JDict m \<Rightarrow>
          (let role = dict_get m ''role'' (JStr ''user'');
               gemini_role = (if role = JStr ''assistant'' then ''model'' else ''user'');
               raw_content = dict_get m ''content'' (JStr [])
           in bind_res
                (case raw_content of
                   JStr _ \<Rightarrow> if is_non_whitespace_text raw_content
                             then Inr [JDict [(''text'', JStr (py_str raw_content))]] else Inr []
                 | JList items \<Rightarrow> convert_blocks dumps include_thinking items
                 | _ \<Rightarrow> if is_non_whitespace_text raw_content
                        then Inr [JDict [(''text'', JStr (py_str raw_content))]] else Inr [])
                (\<lambda>parts. if parts = [] then Inr []
                          else Inr [JDict [(''role'', JStr gemini_role), (''parts'', JList parts)]]))
      | _ \<Rightarrow> Inl AttributeError)"

fun convert_messages_to_contents ::
  "(json \<Rightarrow> string) \<Rightarrow> json list \<Rightarrow> bool \<Rightarrow> py_error + json list" where
  "convert_messages_to_contents dumps [] include_thinking = Inr []"
| "convert_messages_to_contents dumps (msg # messages) include_thinking =
     bind_res (convert_message dumps include_thinking msg) (\<lambda>content.
       bind_res (convert_messages_to_contents dumps messages include_thinking) (\<lambda>contents.
         Inr (content @ contents)))"

subsection \<open>Generation config\<close>

text \<open>
  The search of \<open>build_generation_config\<close> for the first content block of the last assistant
  message, over the reversed message list. A message that is not a dict, is not from the
  assistant, or whose content is not a non-empty list is passed over.
\<close>

fun last_assistant_first_block_type :: "json list \<Rightarrow> json" where
  "last_assistant_first_block_type [] = JNull"
| "last_assistant_first_block_type (msg # rest) =
     (case msg of
        JDict m \<Rightarrow>
          if dict_get m ''role'' JNull \<noteq> JStr ''assistant'' then last_assistant_first_block_type rest
          else (case dict_get m ''content'' JNull of
                  JList content \<Rightarrow>
                    (case content of
                       [] \<Rightarrow> last_assistant_first_block_type rest
                     | first_block # _ \<Rightarrow>
                         (case first_block of
                            JDict fb \<Rightarrow> dict_get fb ''type'' JNull
                          | _ \<Rightarrow> JNull))
                | _ \<Rightarrow> last_assistant_first_block_type rest)
      | _ \<Rightarrow> last_assistant_first_block_type rest)"

text \<open>
  \<^verbatim>\<open>t not in {None, "thinking", "redacted_thinking"}\<close>: the test hashes \<open>t\<close>, which raises
  for a list or a dict.
\<close>

definition not_in_thinking_types :: "json \<Rightarrow> py_error + bool" where
  "not_in_thinking_types t =
     (case t of
        JList _ \<Rightarrow> Inl TypeError
      | JDict _ \<Rightarrow> Inl TypeError
      | _ \<Rightarrow> Inr (t \<noteq> JNull \<and> t \<noteq> JStr ''thinking'' \<and> t \<noteq> JStr ''redacted_thinking''))"

definition default_stop_sequences :: "string list" where
  "default_stop_sequences =
     [''<|user|>'', ''<|bot|>'', ''<|context_request|>'', ''<|endoftext|>'', ''<|end_of_turn|>'']"

definition base_generation_config :: "dict \<Rightarrow> dict" where
  "base_generation_config payload =
     (let config = [(''topP'', JInt 1), (''topK'', JInt 40), (''candidateCount'', JInt 1),
                    (''stopSequences'', JList (map JStr default_stop_sequences))];
          temperature = dict_get payload ''temperature'' JNull;
          config = AList.update ''temperature''
                     (if temperature = JNull then DEFAULT_TEMPERATURE else temperature) config;
          top_p = dict_get payload ''top_p'' JNull;
          config = (if top_p \<noteq> JNull then AList.update ''topP'' top_p config else config);
          top_k = dict_get payload ''top_k'' JNull;
          config = (if top_k \<noteq> JNull then AList.update ''topK'' top_k config else config);
          max_tokens = dict_get payload ''max_tokens'' JNull;
          config = (if max_tokens \<noteq> JNull then AList.update ''maxOutputTokens'' max_tokens config
                    else config);
          stop_sequences = dict_get payload ''stop_sequences'' JNull
      in if is_list stop_sequences \<and> truthy stop_sequences
         then AList.update ''stopSequences''
                (JList (list_items (dict_get config ''stopSequences'' JNull) @
                        map (\<lambda>s. JStr (py_str s)) (list_items stop_sequences)))
                config
         else config)"

text \<open>\<^verbatim>\<open>payload.get("messages") or []\<close>\<close>

definition messages_or_empty :: "dict \<Rightarrow> json" where
  "messages_or_empty payload =
     (let messages = dict_get payload ''messages'' JNull
      in if truthy messages then messages else JList [])"

text \<open>
  \<open>build_generation_config\<close>: the first part of the source (everything before the comment
  on extended thinking) is \<open>base_generation_config\<close>; the result is the pair
  \<open>(generation_config, should_include_thinking)\<close>.
\<close>

definition build_generation_config :: "dict \<Rightarrow> py_error + (dict \<times> bool)" where
  "build_generation_config payload =
     (let config = base_generation_config payload in
      if map_of payload ''thinking'' = None then Inr (config, False)
      else
        let thinking_value = dict_get payload ''thinking'' JNull in
        if thinking_value = JNull then Inr (config, False)
        else
          let thinking_config = get_thinking_config thinking_value;
              include_thoughts = truthy (dict_get thinking_config ''includeThoughts'' (JBool False))
          in bind_res (py_iter (messages_or_empty payload)) (\<lambda>msgs.
               let last_type = last_assistant_first_block_type (rev msgs) in
               bind_res (if include_thoughts then not_in_thinking_types last_type else Inr False)
                 (\<lambda>mismatch.
                    if mismatch then Inr (config, False)
                    else
                      let max_tokens = dict_get payload ''max_tokens'' JNull;
                          budget = dict_get thinking_config ''thinkingBudget'' JNull;
                          adjust = (include_thoughts \<and> is_int max_tokens \<and> is_int budget
                                    \<and> int_value budget \<ge> int_value max_tokens);
                          adjusted_budget = max 0 (int_value max_tokens - 1)
                      in if adjust \<and> adjusted_budget \<le> 0 then Inr (config, False)
                         else
                           let thinking_config =
                                 (if adjust
                                  then AList.update ''thinkingBudget'' (JInt adjusted_budget) thinking_config
                                  else thinking_config)
                           in Inr (AList.update ''thinkingConfig'' (JDict thinking_config) config,
                                   include_thoughts))))"

section \<open>Routing rules (router/rules.py)\<close>

record RoutingRule =
  name :: string
  provider :: string
  priority :: int
  agent_type :: "string option"
  model_pattern :: "string option"
  thinking_enabled :: "bool option"
  min_context_tokens :: "int option"
  max_context_tokens :: "int option"
  fallback_provider :: "string option"

text \<open>
  \<open>RoutingRule.matches\<close>. \<open>re_match pattern s\<close> stands for
  \<^verbatim>\<open>re.match(pattern, s, re.IGNORECASE)\<close>: whether there is a match, or the error of a
  pattern that does not compile. A model that is not a string makes \<open>re.match\<close> raise.
  \<open>is_thinking\<close> is the local variable of that name.
\<close>

definition is_thinking :: "dict \<Rightarrow> bool" where
  "is_thinking request =
     (case dict_get request ''thinking'' (JDict []) of
        JDict d \<Rightarrow> dict_get d ''type'' JNull = JStr ''enabled''
      | JBool b \<Rightarrow> b
      | _ \<Rightarrow> False)"

definition matches ::
  "(string \<Rightarrow> string \<Rightarrow> py_error + bool) \<Rightarrow> RoutingRule \<Rightarrow> dict \<Rightarrow> string option \<Rightarrow> int
     \<Rightarrow> py_error + bool" where
  "matches re_match rule request agent_type_arg context_tokens =
     (if (case agent_type rule of
            Some a \<Rightarrow> a \<noteq> [] \<and>
                      a \<noteq> (case agent_type_arg of Some g \<Rightarrow> if g \<noteq> [] then g else ''default''
                                                 | None \<Rightarrow> ''default'')
          | None \<Rightarrow> False)
      then Inr False
      else
        bind_res
          (case model_pattern rule of
             Some pat \<Rightarrow>
               if pat \<noteq> [] then
                 (case dict_get request ''model'' (JStr []) of
                    JStr model \<Rightarrow> re_match pat model
                  | _ \<Rightarrow> Inl TypeError)
               else Inr True
           | None \<Rightarrow> Inr True)
          (\<lambda>model_ok.
             if \<not> model_ok then Inr False
             else if (case thinking_enabled rule of
                        Some t \<Rightarrow> t \<noteq> is_thinking request
                      | None \<Rightarrow> False)
             then Inr False
             else if (case min_context_tokens rule of Some lo \<Rightarrow> context_tokens < lo | None \<Rightarrow> False)
             then Inr False
             else if (case max_context_tokens rule of Some hi \<Rightarrow> context_tokens > hi | None \<Rightarrow> False)
             then Inr False
             else Inr True))"

section \<open>Streaming translator (core/streaming.py)\<close>

text \<open>
  An emitted event is its name and its JSON data; the byte encoding of \<open>_sse_event\<close> is
  not modelled.
\<close>

type_synonym event = "string \<times> json"

definition sse_event :: "string \<Rightarrow> json \<Rightarrow> event" where
  "sse_event event data = (event, data)"

text \<open>
  What the translator takes from outside the module: \<open>json.loads\<close> (\<open>None\<close> when it
  raises), \<open>int\<close> of a string and of a float, \<open>json.dumps\<close>, the text of an exception,
  \<open>uuid.uuid4().hex\<close> (indexed by the block it is drawn for), and
  \<open>remove_nulls_for_tool_input\<close>, whose module is not part of the sources at hand.
\<close>

record Lib =
  json_loads :: "string \<Rightarrow> json option"
  int_of_str :: "string \<Rightarrow> py_error + int"
  int_of_float :: "string \<Rightarrow> py_error + int"
  json_dumps :: "json \<Rightarrow> string"
  exc_text :: "py_error \<Rightarrow> string"
  uuid4_hex :: "int \<Rightarrow> string"
  remove_nulls_for_tool_input :: "json \<Rightarrow> py_error + json"

text \<open>The keyword arguments of the translator; no credential manager is configured.\<close>

record Args =
  model :: string
  message_id :: string
  initial_input_tokens :: int
  client_thinking_enabled :: bool
  thinking_to_text :: bool

record StreamingState =
  current_block_type :: "string option"
  current_block_index :: int
  current_thinking_signature :: json
  has_tool_use :: bool
  input_tokens :: int
  output_tokens :: int
  has_input_tokens :: bool
  has_output_tokens :: bool
  finish_reason :: "string option"

text \<open>The variables of the generator that live across lines.\<close>

record Generator =
  state :: StreamingState
  message_start_sent :: bool
  pending_output :: "event list"
  thinking_text_buffer :: string

definition init_state :: StreamingState where
  "init_state =
     \<lparr>current_block_type = None, current_block_index = - 1, current_thinking_signature = JNull,
      has_tool_use = False, input_tokens = 0, output_tokens = 0, has_input_tokens = False,
      has_output_tokens = False, finish_reason = None\<rparr>"

definition init_generator :: Generator where
  "init_generator =
     \<lparr>state = init_state, message_start_sent = False, pending_output = [],
      thinking_text_buffer = []\<rparr>"

definition initial_input_tokens_int :: "Args \<Rightarrow> int" where
  "initial_input_tokens_int args = max 0 (initial_input_tokens args)"

subsection \<open>Methods of the state\<close>

definition next_index :: "StreamingState \<Rightarrow> int \<times> StreamingState" where
  "next_index s =
     (current_block_index s + 1, s\<lparr>current_block_index := current_block_index s + 1\<rparr>)"

definition block_stop_event :: "int \<Rightarrow> event" where
  "block_stop_event idx =
     sse_event ''content_block_stop''
       (JDict [(''type'', JStr ''content_block_stop''), (''index'', JInt idx)])"

definition block_start_event :: "int \<Rightarrow> json \<Rightarrow> event" where
  "block_start_event idx block =
     sse_event ''content_block_start''
       (JDict [(''type'', JStr ''content_block_start''), (''index'', JInt idx),
               (''content_block'', block)])"

definition block_delta_event :: "int \<Rightarrow> json \<Rightarrow> event" where
  "block_delta_event idx delta =
     sse_event ''content_block_delta''
       (JDict [(''type'', JStr ''content_block_delta''), (''index'', JInt idx),
               (''delta'', delta)])"

definition close_block_if_open :: "StreamingState \<Rightarrow> event option \<times> StreamingState" where
  "close_block_if_open s =
     (case current_block_type s of
        None \<Rightarrow> (None, s)
      | Some _ \<Rightarrow>
          (Some (block_stop_event (current_block_index s)),
           s\<lparr>current_block_type := None, current_thinking_signature := JNull\<rparr>))"

definition open_text_block :: "StreamingState \<Rightarrow> event \<times> StreamingState" where
  "open_text_block s =
     (let (idx, s) = next_index s;
          s = s\<lparr>current_block_type := Some ''text''\<rparr>
      in (block_start_event idx (JDict [(''type'', JStr ''text''), (''text'', JStr [])]), s))"

definition open_thinking_block :: "json \<Rightarrow> StreamingState \<Rightarrow> event \<times> StreamingState" where
  "open_thinking_block signature s =
     (let (idx, s) = next_index s;
          s = s\<lparr>current_block_type := Some ''thinking'', current_thinking_signature := signature\<rparr>;
          block = [(''type'', JStr ''thinking''), (''thinking'', JStr [])];
          block = (if truthy signature then AList.update ''signature'' signature block else block)
      in (block_start_event idx (JDict block), s))"

subsection \<open>Helpers of the generator\<close>

text \<open>
  \<open>emit\<close> is the statement the source repeats after building each event:
  \<^verbatim>\<open>if message_start_sent: ready_output.append(evt) else: enqueue(evt)\<close>.
  The second component is \<open>ready_output\<close>, the events of the current line.
\<close>

definition emit :: "event \<Rightarrow> Generator \<times> event list \<Rightarrow> Generator \<times> event list" where
  "emit evt gr =
     (let (g, ready_output) = gr
      in if message_start_sent g then (g, ready_output @ [evt])
         else (g\<lparr>pending_output := pending_output g @ [evt]\<rparr>, ready_output))"

text \<open>\<^verbatim>\<open>stop_evt = state.close_block_if_open()\<close>, emitted if there is one.\<close>

definition close_current :: "Generator \<times> event list \<Rightarrow> Generator \<times> event list" where
  "close_current gr =
     (let (g, ready_output) = gr;
          (stop_evt, s) = close_block_if_open (state g);
          g = g\<lparr>state := s\<rparr>
      in case stop_evt of
           None \<Rightarrow> (g, ready_output)
         | Some evt \<Rightarrow> emit evt (g, ready_output))"

definition message_start_event :: "Args \<Rightarrow> int \<Rightarrow> event" where
  "message_start_event args n =
     sse_event ''message_start''
       (JDict [(''type'', JStr ''message_start''),
               (''message'',
                JDict [(''id'', JStr (message_id args)), (''type'', JStr ''message''),
                       (''role'', JStr ''assistant''), (''model'', JStr (model args)),
                       (''content'', JList []), (''stop_reason'', JNull),
                       (''stop_sequence'', JNull),
                       (''usage'', JDict [(''input_tokens'', JInt n),
                                          (''output_tokens'', JInt 0)])])])"

definition send_message_start ::
  "Args \<Rightarrow> int \<Rightarrow> Generator \<times> event list \<Rightarrow> Generator \<times> event list" where
  "send_message_start args n gr =
     (let (g, ready) = gr
      in if message_start_sent g then (g, ready)
         else (g\<lparr>message_start_sent := True, pending_output := []\<rparr>,
               ready @ [message_start_event args n] @ pending_output g))"

definition usage_of :: "dict \<Rightarrow> dict" where
  "usage_of d = (case dict_get d ''usageMetadata'' (JDict []) of JDict u \<Rightarrow> u | _ \<Rightarrow> [])"

definition usage_score :: "dict \<Rightarrow> nat" where
  "usage_score d =
     length (filter (\<lambda>f. map_of d f \<noteq> None \<and> dict_get d f JNull \<noteq> JNull)
               [''promptTokenCount'', ''candidatesTokenCount'', ''totalTokenCount''])"

definition pick_usage_metadata :: "dict \<Rightarrow> dict \<Rightarrow> dict" where
  "pick_usage_metadata response candidate =
     (let response_usage = usage_of response;
          candidate_usage = usage_of candidate
      in if usage_score candidate_usage > usage_score response_usage then candidate_usage
         else response_usage)"

text \<open>\<^verbatim>\<open>int(v or 0)\<close>\<close>

definition int_or_zero :: "Lib \<Rightarrow> json \<Rightarrow> py_error + int" where
  "int_or_zero lib v =
     (if \<not> truthy v then Inr 0
      else case v of
             JInt i \<Rightarrow> Inr i
           | JBool b \<Rightarrow> Inr (if b then 1 else 0)
           | JFloat r \<Rightarrow> int_of_float lib r
           | JStr s \<Rightarrow> int_of_str lib s
           | _ \<Rightarrow> Inl TypeError)"

text \<open>\<^verbatim>\<open>d.get(k, default) or default\<close>, which must then be a dict for \<open>.get\<close> to work on it.\<close>

definition get_dict :: "dict \<Rightarrow> string \<Rightarrow> py_error + dict" where
  "get_dict d k =
     (let v = dict_get d k (JDict [])
      in if \<not> truthy v then Inr []
         else case v of JDict x \<Rightarrow> Inr x | _ \<Rightarrow> Inl AttributeError)"

text \<open>\<^verbatim>\<open>(response.get("candidates", []) or [{}])[0] or {}\<close>, then used as a dict.\<close>

definition first_candidate :: "dict \<Rightarrow> py_error + dict" where
  "first_candidate response =
     (let candidates = dict_get response ''candidates'' (JList []);
          candidates = (if truthy candidates then candidates else JList [JDict []])
      in bind_res
           (case candidates of
              JList xs \<Rightarrow> (case xs of x # _ \<Rightarrow> Inr x | [] \<Rightarrow> Inl IndexError)
            | JStr s \<Rightarrow> (case s of c # _ \<Rightarrow> Inr (JStr [c]) | [] \<Rightarrow> Inl IndexError)
            | JDict _ \<Rightarrow> Inl KeyError
            | _ \<Rightarrow> Inl TypeError)
           (\<lambda>candidate.
              if \<not> truthy candidate then Inr []
              else case candidate of JDict c \<Rightarrow> Inr c | _ \<Rightarrow> Inl AttributeError))"

subsection \<open>One part of a chunk\<close>

definition signature_delta :: "json \<Rightarrow> Generator \<times> event list \<Rightarrow> Generator \<times> event list" where
  "signature_delta signature gr =
     (let (g, ready_output) = gr;
          s = state g
      in if truthy signature \<and> current_block_type s = Some ''thinking''
            \<and> \<not> truthy (current_thinking_signature s)
         then
           (let evt = block_delta_event (current_block_index s)
                        (JDict [(''type'', JStr ''signature_delta''), (''signature'', signature)]);
                g = g\<lparr>state := s\<lparr>current_thinking_signature := JStr (py_str signature)\<rparr>\<rparr>
            in emit evt (g, ready_output))
         else gr)"

text \<open>The branch \<^verbatim>\<open>if part.get("thought") is True\<close>.\<close>

definition thought_part ::
  "Args \<Rightarrow> dict \<Rightarrow> Generator \<times> event list \<Rightarrow> py_error + Generator \<times> event list" where
  "thought_part args part gr =
     (let (g, ready_output) = gr;
          thinking_text = dict_get part ''text'' (JStr [])
      in if \<not> client_thinking_enabled args then
           (if thinking_to_text args \<and> truthy thinking_text then
              (case thinking_text of
                 JStr t \<Rightarrow> Inr (g\<lparr>thinking_text_buffer := thinking_text_buffer g @ t\<rparr>, ready_output)
               | _ \<Rightarrow> Inl TypeError)
            else Inr gr)
         else
           (let gr = (if current_block_type (state g) \<noteq> Some ''thinking'' then
                        (let (g, ready_output) = close_current gr;
                             signature = dict_get part ''thoughtSignature'' JNull;
                             (evt, s) = open_thinking_block signature (state g)
                         in emit evt (g\<lparr>state := s\<rparr>, ready_output))
                      else gr)
            in if truthy thinking_text then
                 Inr (emit (block_delta_event (current_block_index (state (fst gr)))
                              (JDict [(''type'', JStr ''thinking_delta''),
                                      (''thinking'', thinking_text)])) gr)
               else Inr gr))"

definition wrapped_thinking :: "string \<Rightarrow> string" where
  "wrapped_thinking buffer =
     ''<assistant_thinking>'' @ [CHR 0x0A] @ buffer @ ''</assistant_thinking>'' @ [CHR 0x0A, CHR 0x0A]"

text \<open>The branch \<^verbatim>\<open>if "text" in part\<close>.\<close>

definition text_part :: "dict \<Rightarrow> Generator \<times> event list \<Rightarrow> Generator \<times> event list" where
  "text_part part gr =
     (let text = dict_get part ''text'' (JStr []) in
      if (case text of JStr t \<Rightarrow> strip t = [] | _ \<Rightarrow> False) then gr
      else
        let gr = (if current_block_type (state (fst gr)) \<noteq> Some ''text'' then
                    (let (g, ready_output) = close_current gr;
                         (evt, s) = open_text_block (state g)
                     in emit evt (g\<lparr>state := s\<rparr>, ready_output))
                  else gr);
            gr = (if thinking_text_buffer (fst gr) \<noteq> [] then
                    (let (g, ready_output) =
                           emit (block_delta_event (current_block_index (state (fst gr)))
                                   (JDict [(''type'', JStr ''text_delta''),
                                           (''text'', JStr (wrapped_thinking
                                                              (thinking_text_buffer (fst gr))))]))
                                gr
                     in (g\<lparr>thinking_text_buffer := []\<rparr>, ready_output))
                  else gr)
        in if truthy text then
             emit (block_delta_event (current_block_index (state (fst gr)))
                     (JDict [(''type'', JStr ''text_delta''), (''text'', text)])) gr
           else gr)"

text \<open>The branch \<^verbatim>\<open>if "inlineData" in part\<close>.\<close>

definition inline_data_part ::
  "dict \<Rightarrow> Generator \<times> event list \<Rightarrow> py_error + Generator \<times> event list" where
  "inline_data_part part gr =
     (let (g, ready_output) = close_current gr
      in bind_res (get_dict part ''inlineData'') (\<lambda>inline.
           let (idx, s) = next_index (state g);
               block = JDict [(''type'', JStr ''image''),
                              (''source'',
                               JDict [(''type'', JStr ''base64''),
                                      (''media_type'', dict_get inline ''mimeType'' (JStr ''image/png'')),
                                      (''data'', dict_get inline ''data'' (JStr []))])];
               evt1 = block_start_event idx block;
               evt2 = block_stop_event idx
           in Inr (emit evt2 (emit evt1 (g\<lparr>state := s\<rparr>, ready_output)))))"

text \<open>The branch \<^verbatim>\<open>if "functionCall" in part\<close>.\<close>

definition function_call_part ::
  "Lib \<Rightarrow> dict \<Rightarrow> Generator \<times> event list \<Rightarrow> py_error + Generator \<times> event list" where
  "function_call_part lib part gr =
     (let (g, ready_output) = close_current gr;
          g = g\<lparr>state := (state g)\<lparr>has_tool_use := True\<rparr>\<rparr>
      in bind_res (get_dict part ''functionCall'') (\<lambda>fc.
           let tool_id = dict_get fc ''id'' JNull;
               tool_id = (if truthy tool_id then tool_id
                          else JStr (''toolu_'' @ uuid4_hex lib (current_block_index (state g) + 1)));
               tool_name = dict_get fc ''name'' JNull;
               tool_name = (if truthy tool_name then tool_name else JStr []);
               args = dict_get fc ''args'' (JDict [])
           in bind_res (remove_nulls_for_tool_input lib (if truthy args then args else JDict []))
                (\<lambda>tool_args.
                   let (idx, s) = next_index (state g);
                       evt_start = block_start_event idx
                         (JDict [(''type'', JStr ''tool_use''), (''id'', tool_id),
                                 (''name'', tool_name), (''input'', JDict [])]);
                       input_json = json_dumps lib tool_args;
                       evt_delta = block_delta_event idx
                         (JDict [(''type'', JStr ''input_json_delta''),
                                 (''partial_json'', JStr input_json)]);
                       evt_stop = block_stop_event idx
                   in Inr (emit evt_stop (emit evt_delta (emit evt_start
                             (g\<lparr>state := s\<rparr>, ready_output)))))))"

text \<open>The body of \<^verbatim>\<open>for part in parts\<close>.\<close>

definition process_part ::
  "Lib \<Rightarrow> Args \<Rightarrow> json \<Rightarrow> Generator \<times> event list \<Rightarrow> py_error + Generator \<times> event list" where
  "process_part lib args part_v gr =
     (case part_v of
        JDict part \<Rightarrow>
          (let gr = signature_delta (dict_get part ''thoughtSignature'' JNull) gr in
           if dict_get part ''thought'' JNull = JBool True then thought_part args part gr
           else if map_of part ''text'' \<noteq> None then Inr (text_part part gr)
           else if map_of part ''inlineData'' \<noteq> None then inline_data_part part gr
           else if map_of part ''functionCall'' \<noteq> None then function_call_part lib part gr
           else Inr gr)
      | _ \<Rightarrow> Inr gr)"

fun process_parts ::
  "Lib \<Rightarrow> Args \<Rightarrow> json list \<Rightarrow> Generator \<times> event list \<Rightarrow> py_error + Generator \<times> event list" where
  "process_parts lib args [] gr = Inr gr"
| "process_parts lib args (part_v # parts) gr =
     bind_res (process_part lib args part_v gr) (process_parts lib args parts)"

subsection \<open>One chunk\<close>

text \<open>
  The first half of the loop body, from \<open>data.get("response")\<close> to the call of
  \<open>send_message_start\<close>: it returns the candidate and the parts with the generator.
\<close>

definition capture_usage :: "Lib \<Rightarrow> dict \<Rightarrow> StreamingState \<Rightarrow> py_error + StreamingState" where
  "capture_usage lib usage s =
     bind_res
       (if map_of usage ''promptTokenCount'' \<noteq> None then
          bind_res (int_or_zero lib (dict_get usage ''promptTokenCount'' (JInt 0)))
            (\<lambda>n. Inr (s\<lparr>input_tokens := n, has_input_tokens := True\<rparr>))
        else Inr s)
       (\<lambda>s. if map_of usage ''candidatesTokenCount'' \<noteq> None then
               bind_res (int_or_zero lib (dict_get usage ''candidatesTokenCount'' (JInt 0)))
                 (\<lambda>n. Inr (s\<lparr>output_tokens := n, has_output_tokens := True\<rparr>))
             else Inr s)"

definition chunk_head ::
  "Lib \<Rightarrow> Args \<Rightarrow> json \<Rightarrow> Generator
     \<Rightarrow> py_error + (dict \<times> json) \<times> (Generator \<times> event list)" where
  "chunk_head lib args data g =
     (case data of
        JDict d \<Rightarrow>
          bind_res (get_dict d ''response'') (\<lambda>response.
          bind_res (first_candidate response) (\<lambda>candidate.
          bind_res (get_dict candidate ''content'') (\<lambda>content.
            let parts = dict_get content ''parts'' (JList []);
                parts = (if truthy parts then parts else JList [])
            in bind_res (capture_usage lib (pick_usage_metadata response candidate) (state g))
                 (\<lambda>s. let g = g\<lparr>state := s\<rparr>;
                          gr = (if has_input_tokens s \<and> \<not> message_start_sent g
                                then send_message_start args (input_tokens s) (g, [])
                                else (g, []))
                      in Inr ((candidate, parts), gr)))))
      | _ \<Rightarrow> Inl AttributeError)"

text \<open>
  One line of the upstream. The result is the error with the value of
  \<open>message_start_sent\<close> when it was raised, or the generator, the events to yield, and
  whether the loop ends (\<open>break\<close>).
\<close>

definition process_line ::
  "Lib \<Rightarrow> Args \<Rightarrow> string \<Rightarrow> Generator
     \<Rightarrow> (py_error \<times> bool) + (Generator \<times> event list \<times> bool)" where
  "process_line lib args line g =
     (if line = [] \<or> \<not> startswith line ''data: '' then Inr (g, [], False)
      else
        let raw = strip (drop 6 line) in
        if raw = ''[DONE]'' then Inr (g, [], True)
        else case json_loads lib raw of
               None \<Rightarrow> Inr (g, [], False)
             | Some data \<Rightarrow>
                 (case chunk_head lib args data g of
                    Inl e \<Rightarrow> Inl (e, message_start_sent g)
                  | Inr ((candidate, parts), gr) \<Rightarrow>
                      (case bind_res (py_iter parts) (\<lambda>ps. process_parts lib args ps gr) of
                         Inl e \<Rightarrow> Inl (e, message_start_sent (fst gr))
                       | Inr (g, ready_output) \<Rightarrow>
                           let fr = dict_get candidate ''finishReason'' JNull in
                           if truthy fr
                           then Inr (g\<lparr>state := (state g)\<lparr>finish_reason := Some (py_str fr)\<rparr>\<rparr>,
                                     ready_output, True)
                           else Inr (g, ready_output, False))))"

text \<open>
  The loop \<^verbatim>\<open>async for line in lines\<close>, with the events yielded so far. On an exception
  the result keeps them, with the error and the flag.
\<close>

fun run_lines ::
  "Lib \<Rightarrow> Args \<Rightarrow> Generator \<Rightarrow> event list \<Rightarrow> string list
     \<Rightarrow> (py_error \<times> bool \<times> event list) + (Generator \<times> event list)" where
  "run_lines lib args g yielded [] = Inr (g, yielded)"
| "run_lines lib args g yielded (line # lines) =
     (case process_line lib args line g of
        Inl (e, sent) \<Rightarrow> Inl (e, sent, yielded)
      | Inr (g, ready_output, stop) \<Rightarrow>
          if stop then Inr (g, yielded @ ready_output)
          else run_lines lib args g (yielded @ ready_output) lines)"

subsection \<open>End of stream\<close>

definition message_delta_event :: "Args \<Rightarrow> StreamingState \<Rightarrow> event" where
  "message_delta_event args s =
     (let stop_reason = (if has_tool_use s then ''tool_use'' else ''end_turn'');
          stop_reason = (if finish_reason s = Some ''MAX_TOKENS'' \<and> \<not> has_tool_use s
                         then ''max_tokens'' else stop_reason)
      in sse_event ''message_delta''
           (JDict [(''type'', JStr ''message_delta''),
                   (''delta'', JDict [(''stop_reason'', JStr stop_reason),
                                      (''stop_sequence'', JNull)]),
                   (''usage'',
                    JDict [(''input_tokens'',
                            JInt (if has_input_tokens s then input_tokens s
                                  else initial_input_tokens_int args)),
                           (''output_tokens'',
                            JInt (if has_output_tokens s then output_tokens s else 0))])]))"

text \<open>
  Everything after the loop, on the normal path; the events it yields. In this part the
  source yields each event directly when \<open>message_start\<close> was sent, which is \<open>emit\<close> into a
  list that is yielded at once.
\<close>

definition epilogue :: "Args \<Rightarrow> Generator \<Rightarrow> event list" where
  "epilogue args g =
     (let gr = (g, []);
          gr = (if thinking_text_buffer g \<noteq> [] then
                  (let (g, out) = close_current gr;
                       (evt, s) = open_text_block (state g);
                       gr = emit evt (g\<lparr>state := s\<rparr>, out)
                   in emit (block_delta_event (current_block_index s)
                              (JDict [(''type'', JStr ''text_delta''),
                                      (''text'', JStr (''<assistant_thinking>'' @ [CHR 0x0A] @
                                                       thinking_text_buffer g @
                                                       ''</assistant_thinking>''))])) gr)
                else gr);
          gr = close_current gr;
          (g, out) = (if \<not> message_start_sent (fst gr)
                      then send_message_start args (initial_input_tokens_int args) gr
                      else gr)
      in out @ [message_delta_event args (state g), sse_event ''message_stop''
                  (JDict [(''type'', JStr ''message_stop'')])])"

text \<open>The \<open>except\<close> branch: the events yielded after an exception.\<close>

definition on_exception :: "Lib \<Rightarrow> Args \<Rightarrow> py_error \<Rightarrow> bool \<Rightarrow> event list" where
  "on_exception lib args e sent =
     (if \<not> sent then [message_start_event args (initial_input_tokens_int args)] else []) @
     [sse_event ''error''
        (JDict [(''type'', JStr ''error''),
                (''error'', JDict [(''type'', JStr ''api_error''),
                                   (''message'', JStr (exc_text lib e))])])]"

text \<open>The translator: all the events it yields for a finite sequence of lines.\<close>

definition antigravity_sse_to_anthropic_sse :: "Lib \<Rightarrow> Args \<Rightarrow> string list \<Rightarrow> event list" where
  "antigravity_sse_to_anthropic_sse lib args lines =
     (case run_lines lib args init_generator [] lines of
        Inl (e, sent, yielded) \<Rightarrow> yielded @ on_exception lib args e sent
      | Inr (g, yielded) \<Rightarrow> yielded @ epilogue args g)"

text \<open>Whether the translator leaves its \<open>try\<close> block by an exception.\<close>

definition raises :: "Lib \<Rightarrow> Args \<Rightarrow> string list \<Rightarrow> bool" where
  "raises lib args lines =
     (case run_lines lib args init_generator [] lines of Inl _ \<Rightarrow> True | Inr _ \<Rightarrow> False)"

section \<open>Properties of the failover chain\<close>

definition chain_step :: "string \<Rightarrow> string list \<Rightarrow> string list" where
  "chain_step p chain = (if p \<notin> set chain then chain @ [p] else chain)"

lemma fold_chain_step_shape:
  "distinct c \<Longrightarrow>
   fold chain_step xs c = c @ rev (remdups (rev [p \<leftarrow> xs. p \<notin> set c]))"
proof (induction xs arbitrary: c rule: rev_induct)
  case Nil
  then show ?case by simp
next
  case (snoc x xs)
  show ?case
  proof (cases "x \<in> set c")
    case True
    with snoc show ?thesis by (simp add: chain_step_def)
  next
    case False
    with snoc show ?thesis by (auto simp add: chain_step_def)
  qed
qed

definition chain_head :: "string \<Rightarrow> string option \<Rightarrow> string list \<Rightarrow> string list" where
  "chain_head primary fallback available =
     (if primary \<in> set available then [primary] else []) @
     (case fallback of
        None \<Rightarrow> []
      | Some f \<Rightarrow> if f \<noteq> [] \<and> f \<in> set available \<and> f \<noteq> primary then [f] else [])"

lemma chain_head_props:
  "distinct (chain_head p fb av)" "set (chain_head p fb av) \<subseteq> set av"
  by (auto simp add: chain_head_def split: option.splits)

lemma build_failover_chain_shape:
  "build_failover_chain p fb av =
     chain_head p fb av @ rev (remdups (rev [x \<leftarrow> av. x \<notin> set (chain_head p fb av)]))"
proof -
  have step: "(\<lambda>provider chain. if provider \<notin> set chain then chain @ [provider] else chain) = chain_step"
    by (intro ext) (simp add: chain_step_def)
  have "build_failover_chain p fb av = fold chain_step av (chain_head p fb av)"
    unfolding build_failover_chain_def Let_def step
    by (auto simp add: chain_head_def split: option.splits)
  then show ?thesis
    by (simp add: fold_chain_step_shape chain_head_props)
qed

text \<open>
  C7. The chain has no duplicates, holds only available names and is no longer than
  \<open>available\<close>. With \<open>k\<close> the number of entries the primary takes (1 if it is available,
  else 0): an available primary is at position 0; a fallback that is set (a non-empty
  name), available and different from the primary is at position \<open>k\<close>, right after the
  primary; and after these \<open>h\<close> leading entries come the remaining available names, each
  once, in the order of their first occurrence in \<open>available\<close>
  (\<open>rev (remdups (rev xs))\<close> keeps the first occurrence of each element of \<open>xs\<close>).
\<close>

theorem build_failover_chain_properties:
  "let chain = build_failover_chain primary fallback available;
       k = (if primary \<in> set available then 1 else 0 :: nat);
       h = (if \<exists>f. fallback = Some f \<and> f \<noteq> [] \<and> f \<in> set available \<and> f \<noteq> primary
            then k + 1 else k)
   in distinct chain \<and> set chain \<subseteq> set available \<and> length chain \<le> length available \<and>
      (primary \<in> set available \<longrightarrow> chain \<noteq> [] \<and> chain ! 0 = primary) \<and>
      (\<forall>f. fallback = Some f \<and> f \<noteq> [] \<and> f \<in> set available \<and> f \<noteq> primary \<longrightarrow>
           k < length chain \<and> chain ! k = f) \<and>
      h \<le> length chain \<and>
      drop h chain = rev (remdups (rev [x \<leftarrow> available. x \<notin> set (take h chain)]))"
proof -
  define hd where "hd = chain_head primary fallback available"
  define rest where "rest = rev (remdups (rev [x \<leftarrow> available. x \<notin> set hd]))"
  have shape: "build_failover_chain primary fallback available = hd @ rest"
    unfolding hd_def rest_def by (rule build_failover_chain_shape)
  have dh: "distinct hd" and sh: "set hd \<subseteq> set available"
    unfolding hd_def by (rule chain_head_props)+
  have dist: "distinct (hd @ rest)"
    using dh by (auto simp add: rest_def)
  have sub: "set (hd @ rest) \<subseteq> set available"
    using sh by (auto simp add: rest_def)
  have len: "length (hd @ rest) \<le> length available"
  proof -
    have "length (hd @ rest) = card (set (hd @ rest))"
      using dist by (simp only: distinct_card)
    also have "\<dots> \<le> card (set available)"
      using sub by (intro card_mono) simp_all
    also have "\<dots> \<le> length available"
      by (rule card_length)
    finally show ?thesis .
  qed
  show ?thesis
    unfolding Let_def shape
    using dist sub len
    by (auto simp add: hd_def rest_def chain_head_def nth_append split: option.splits)
qed

theorem build_failover_chain_witness:
  "build_failover_chain ''a'' (Some ''c'') [''a'', ''b'', ''c''] = [''a'', ''c'', ''b''] \<and>
   ''a'' \<in> set [''a'', ''b'', ''c''] \<and> ''c'' \<in> set [''a'', ''b'', ''c''] \<and>
   build_failover_chain ''a'' (Some ''c'') [''a'', ''b'', ''c''] ! 0 = ''a'' \<and>
   build_failover_chain ''a'' (Some ''c'') [''a'', ''b'', ''c''] ! 1 = ''c'' \<and>
   drop 2 (build_failover_chain ''a'' (Some ''c'') [''a'', ''b'', ''c'']) = [''b'']"
  using build_failover_chain_properties [of "''a''" "Some ''c''" "[''a'', ''b'', ''c'']"]
  by (simp add: build_failover_chain_def Let_def)

lemma build_failover_chain_primary_unavailable:
  "build_failover_chain ''a'' (Some ''c'') [''b'', ''c''] = [''c'', ''b'']"
  by (simp add: build_failover_chain_def Let_def)

section \<open>Properties of the model mapping\<close>

lemmas map_model_defs =
  map_claude_model_to_gemini_def Let_def strip_def is_space_def dated_model_def
  startswith_def supported_models_def model_mapping_def

text \<open>
  C5. The mapping is not idempotent at \<open>claude-haiku-4\<close>: the alias table sends it to
  \<open>claude-haiku-4.5\<close>, which is neither a supported model nor a key of the table, so a
  second application falls back to the default \<open>claude-sonnet-4-5\<close>.
\<close>

theorem map_claude_model_haiku_4_not_idempotent:
  "map_claude_model_to_gemini ''claude-haiku-4'' = ''claude-haiku-4.5'' \<and>
   map_claude_model_to_gemini (map_claude_model_to_gemini ''claude-haiku-4'') = ''claude-sonnet-4-5''"
  by (simp add: map_model_defs)

section \<open>Properties of the schema sanitizer\<close>

definition removed_key :: "string \<Rightarrow> bool" where
  "removed_key key = (key \<in> set unsupported_keys \<or> key \<in> set fields_to_remove
                      \<or> key \<in> fst ` set validation_fields)"

definition clean_value :: "json \<Rightarrow> json" where
  "clean_value value =
     (case value of
        JDict _ \<Rightarrow> clean_json_schema value
      | JList items \<Rightarrow>
          JList (map (\<lambda>item. case item of JDict _ \<Rightarrow> clean_json_schema item | _ \<Rightarrow> item) items)
      | _ \<Rightarrow> value)"

definition clean_step :: "string list \<Rightarrow> string \<times> json \<Rightarrow> dict \<Rightarrow> dict" where
  "clean_step validations kv cleaned =
     (let key = fst kv; value = snd kv in
      if removed_key key then cleaned
      else if key = ''type'' \<and> is_list value then
        (let cleaned = AList.update key
               (case non_null_types (list_items value) of
                  [] \<Rightarrow> JStr ''string'' | t # _ \<Rightarrow> JStr t)
               cleaned
         in if list_ex is_null_type (list_items value)
            then AList.update ''nullable'' (JBool True) cleaned else cleaned)
      else if key = ''description'' \<and> validations \<noteq> [] then
        AList.update key (JStr (py_str value @ '' ('' @ join '', '' validations @ '')'')) cleaned
      else AList.update key (clean_value value) cleaned)"

definition clean_finish :: "string list \<Rightarrow> dict \<Rightarrow> dict" where
  "clean_finish validations cleaned =
     (let cleaned = (if validations \<noteq> [] \<and> ''description'' \<notin> fst ` set cleaned
                     then AList.update ''description''
                            (JStr (''Validation: '' @ join '', '' validations)) cleaned
                     else cleaned)
      in if ''properties'' \<in> fst ` set cleaned \<and> ''type'' \<notin> fst ` set cleaned
         then AList.update ''type'' (JStr ''object'') cleaned
         else cleaned)"

lemma clean_json_schema_dict:
  "clean_json_schema (JDict schema) =
     JDict (clean_finish (schema_validations schema)
              (fold (clean_step (schema_validations schema)) schema []))"
proof -
  have "(\<lambda>(key, value) cleaned.
              if key \<in> set unsupported_keys \<or> key \<in> set fields_to_remove
                 \<or> key \<in> fst ` set validation_fields
              then cleaned
              else if key = ''type'' \<and> is_list value then
                (let has_null = list_ex is_null_type (list_items value);
                     cleaned = AList.update key
                       (case non_null_types (list_items value) of
                          [] \<Rightarrow> JStr ''string'' | t # _ \<Rightarrow> JStr t)
                       cleaned
                 in if has_null then AList.update ''nullable'' (JBool True) cleaned else cleaned)
              else if key = ''description'' \<and> vs \<noteq> [] then
                AList.update key
                  (JStr (py_str value @ '' ('' @ join '', '' vs @ '')'')) cleaned
              else (case value of
                  JDict _ \<Rightarrow> AList.update key (clean_json_schema value) cleaned
                | JList items \<Rightarrow>
                    AList.update key
                      (JList (map (\<lambda>item. case item of JDict _ \<Rightarrow> clean_json_schema item
                                                        | _ \<Rightarrow> item) items))
                      cleaned
                | _ \<Rightarrow> AList.update key value cleaned)) = clean_step vs" for vs
    by (intro ext) (simp add: clean_step_def clean_value_def removed_key_def Let_def
                         split: prod.splits json.splits)
  then show ?thesis
    by (simp add: clean_finish_def Let_def)
qed

fun sanitized :: "json \<Rightarrow> bool" where
  "sanitized (JDict kvs) =
     (distinct (map fst kvs) \<and>
      (\<forall>kv \<in> set kvs.
         \<not> removed_key (fst kv) \<and> \<not> (fst kv = ''type'' \<and> is_list (snd kv)) \<and>
         (case snd kv of
            JDict _ \<Rightarrow> sanitized (snd kv)
          | JList items \<Rightarrow> (\<forall>item \<in> set items. case item of JDict _ \<Rightarrow> sanitized item | _ \<Rightarrow> True)
          | _ \<Rightarrow> True)) \<and>
      (''properties'' \<in> fst ` set kvs \<longrightarrow> ''type'' \<in> fst ` set kvs))"
| "sanitized v = True"

definition value_ok :: "json \<Rightarrow> bool" where
  "value_ok v =
     (case v of
        JDict _ \<Rightarrow> sanitized v
      | JList items \<Rightarrow> (\<forall>item \<in> set items. case item of JDict _ \<Rightarrow> sanitized item | _ \<Rightarrow> True)
      | _ \<Rightarrow> True)"

definition entry_ok :: "string \<times> json \<Rightarrow> bool" where
  "entry_ok kv = (\<not> removed_key (fst kv) \<and> \<not> (fst kv = ''type'' \<and> is_list (snd kv)) \<and> value_ok (snd kv))"

definition dict_ok :: "dict \<Rightarrow> bool" where
  "dict_ok kvs = (distinct (map fst kvs) \<and> (\<forall>kv \<in> set kvs. entry_ok kv))"

lemma sanitized_dict:
  "sanitized (JDict kvs) = (dict_ok kvs \<and> (''properties'' \<in> fst ` set kvs \<longrightarrow> ''type'' \<in> fst ` set kvs))"
  by (simp add: dict_ok_def entry_ok_def value_ok_def)

lemma set_update_subset: "set (AList.update k v al) \<subseteq> insert (k, v) (set al)"
  by (induction al) auto

lemma dict_ok_update: "dict_ok al \<Longrightarrow> entry_ok (k, v) \<Longrightarrow> dict_ok (AList.update k v al)"
  using set_update_subset [of k v al]
  by (auto simp add: dict_ok_def distinct_update)

lemma entry_ok_scalar [simp]:
  "entry_ok (''type'', JStr s)" "entry_ok (''nullable'', JBool b)" "entry_ok (''description'', JStr s)"
  by (simp_all add: entry_ok_def value_ok_def removed_key_def is_list_def
        unsupported_keys_def fields_to_remove_def validation_fields_def)


declare clean_json_schema.simps(1) [simp del]

lemma is_list_clean_value [simp]: "is_list (clean_value v) = is_list v"
  by (cases v) (simp_all add: clean_value_def is_list_def clean_json_schema_dict)

lemma clean_step_ok:
  assumes "dict_ok acc"
    and "\<not> removed_key (fst kv) \<Longrightarrow> \<not> (fst kv = ''type'' \<and> is_list (snd kv)) \<Longrightarrow>
         \<not> (fst kv = ''description'' \<and> vs \<noteq> []) \<Longrightarrow> value_ok (clean_value (snd kv))"
  shows "dict_ok (clean_step vs kv acc)"
proof -
  consider (rm) "removed_key (fst kv)"
    | (ty) "\<not> removed_key (fst kv)" "fst kv = ''type'' \<and> is_list (snd kv)"
    | (de) "\<not> removed_key (fst kv)" "\<not> (fst kv = ''type'' \<and> is_list (snd kv))"
           "fst kv = ''description'' \<and> vs \<noteq> []"
    | (va) "\<not> removed_key (fst kv)" "\<not> (fst kv = ''type'' \<and> is_list (snd kv))"
           "\<not> (fst kv = ''description'' \<and> vs \<noteq> [])"
    by blast
  then show ?thesis
  proof cases
    case rm
    with assms(1) show ?thesis by (simp add: clean_step_def)
  next
    case ty
    with assms(1) show ?thesis
      by (auto simp add: clean_step_def Let_def intro!: dict_ok_update split: list.splits)
  next
    case de
    with assms(1) show ?thesis
      by (auto simp add: clean_step_def Let_def intro!: dict_ok_update)
  next
    case va
    have "entry_ok (fst kv, clean_value (snd kv))"
      using va assms(2) by (simp add: entry_ok_def)
    with va assms(1) show ?thesis
      by (auto simp add: clean_step_def Let_def intro!: dict_ok_update)
  qed
qed

lemma fold_clean_step_ok:
  assumes "\<And>kv. kv \<in> set xs \<Longrightarrow> \<not> removed_key (fst kv) \<Longrightarrow>
             \<not> (fst kv = ''type'' \<and> is_list (snd kv)) \<Longrightarrow>
             \<not> (fst kv = ''description'' \<and> vs \<noteq> []) \<Longrightarrow> value_ok (clean_value (snd kv))"
    and "dict_ok acc"
  shows "dict_ok (fold (clean_step vs) xs acc)"
  using assms
proof (induction xs arbitrary: acc)
  case Nil
  then show ?case by simp
next
  case (Cons kv xs)
  have "dict_ok (clean_step vs kv acc)"
    using Cons.prems by (intro clean_step_ok) simp_all
  then have "dict_ok (fold (clean_step vs) xs (clean_step vs kv acc))"
    using Cons.prems(1) by (intro Cons.IH) simp_all
  then show ?case by simp
qed

lemma clean_finish_ok:
  assumes "dict_ok cleaned"
  shows "sanitized (JDict (clean_finish vs cleaned))"
proof -
  define c1 where "c1 = (if vs \<noteq> [] \<and> ''description'' \<notin> fst ` set cleaned
                     then AList.update ''description''
                            (JStr (''Validation: '' @ join '', '' vs)) cleaned
                     else cleaned)"
  have ok1: "dict_ok c1"
    using assms by (simp add: c1_def dict_ok_update)
  have fin: "clean_finish vs cleaned =
     (if ''properties'' \<in> fst ` set c1 \<and> ''type'' \<notin> fst ` set c1
      then AList.update ''type'' (JStr ''object'') c1 else c1)"
    by (simp add: clean_finish_def c1_def Let_def)
  show ?thesis
  proof (cases "''properties'' \<in> fst ` set c1 \<and> ''type'' \<notin> fst ` set c1")
    case True
    have "dict_ok (AList.update ''type'' (JStr ''object'') c1)"
      by (rule dict_ok_update [OF ok1]) simp
    moreover have "''type'' \<in> fst ` set (AList.update ''type'' (JStr ''object'') c1)"
      unfolding dom_update by blast
    ultimately show ?thesis
      unfolding sanitized_dict fin using True by simp
  next
    case False
    then show ?thesis
      unfolding sanitized_dict fin using ok1 by auto
  qed
qed

lemma value_ok_clean_list:
  assumes "\<And>item d. item \<in> set items \<Longrightarrow> item = JDict d \<Longrightarrow> sanitized (clean_json_schema item)"
  shows "value_ok (clean_value (JList items))"
proof -
  have "case (case item of JDict _ \<Rightarrow> clean_json_schema item | _ \<Rightarrow> item) of
          JDict _ \<Rightarrow> sanitized (case item of JDict _ \<Rightarrow> clean_json_schema item | _ \<Rightarrow> item)
        | _ \<Rightarrow> True"
    if "item \<in> set items" for item
    using assms [OF that] by (cases item) (simp_all add: clean_json_schema_dict)
  then show ?thesis
    by (simp add: clean_value_def value_ok_def)
qed

lemma value_ok_clean_dict:
  assumes "sanitized (clean_json_schema (JDict d))"
  shows "value_ok (clean_value (JDict d))"
  using assms by (simp add: clean_value_def value_ok_def clean_json_schema_dict)

lemma value_ok_clean_scalar:
  assumes "\<not> is_list v" "\<forall>d. v \<noteq> JDict d"
  shows "value_ok (clean_value v)"
  using assms by (cases v) (simp_all add: clean_value_def value_ok_def is_list_def)


lemma sanitized_clean_json_schema: "sanitized (clean_json_schema x)"
proof (induction x rule: clean_json_schema.induct)
  case (1 schema)
  define vs where "vs = schema_validations schema"
  note IH1 = "1.IH"(1) [folded removed_key_def, OF vs_def _ prod.collapse]
  note IH2 = "1.IH"(2) [folded removed_key_def, OF vs_def _ prod.collapse]
  have val: "value_ok (clean_value (snd kv))"
    if kv: "kv \<in> set schema" "\<not> removed_key (fst kv)"
       "\<not> (fst kv = ''type'' \<and> is_list (snd kv))" "\<not> (fst kv = ''description'' \<and> vs \<noteq> [])"
    for kv
  proof (cases "snd kv")
    case (JList items)
    have "sanitized (clean_json_schema item)" if "item \<in> set items" "item = JDict d" for item d
      by (rule IH1 [OF kv JList that])
    then have "value_ok (clean_value (JList items))"
      by (rule value_ok_clean_list)
    then show ?thesis by (simp only: JList)
  next
    case (JDict d)
    have "sanitized (clean_json_schema (snd kv))"
      by (rule IH2 [OF kv JDict])
    then have "value_ok (clean_value (JDict d))"
      unfolding JDict by (rule value_ok_clean_dict)
    then show ?thesis by (simp only: JDict)
  next
    case JNull
    show ?thesis unfolding JNull by (rule value_ok_clean_scalar) (simp_all add: is_list_def)
  next
    case (JBool b)
    show ?thesis unfolding JBool by (rule value_ok_clean_scalar) (simp_all add: is_list_def)
  next
    case (JInt i)
    show ?thesis unfolding JInt by (rule value_ok_clean_scalar) (simp_all add: is_list_def)
  next
    case (JFloat r)
    show ?thesis unfolding JFloat by (rule value_ok_clean_scalar) (simp_all add: is_list_def)
  next
    case (JStr s)
    show ?thesis unfolding JStr by (rule value_ok_clean_scalar) (simp_all add: is_list_def)
  qed
  have nil: "dict_ok []"
    by (simp add: dict_ok_def)
  have "dict_ok (fold (clean_step vs) schema [])"
    by (rule fold_clean_step_ok [OF val nil])
  then have "sanitized (JDict (clean_finish vs (fold (clean_step vs) schema [])))"
    by (rule clean_finish_ok)
  then show ?case
    by (simp only: clean_json_schema_dict vs_def)
qed simp_all


lemma update_fresh: "k \<notin> fst ` set al \<Longrightarrow> AList.update k v al = al @ [(k, v)]"
  by (induction al) auto

lemma schema_validations_none:
  assumes "\<forall>kv \<in> set kvs. \<not> removed_key (fst kv)"
  shows "schema_validations kvs = []"
proof -
  have "map_of kvs f = None" if "removed_key f" for f
    using assms that by (force simp add: map_of_eq_None_iff)
  moreover have "removed_key f" if "(f, l) \<in> set validation_fields" for f l
    using that by (force simp add: removed_key_def)
  ultimately have "\<forall>fl \<in> set validation_fields. map_of kvs (fst fl) = None"
    by auto
  then show ?thesis
    unfolding schema_validations_def
    by (induction validation_fields) (auto split: prod.splits)
qed

lemma clean_step_fixed:
  assumes "\<not> removed_key (fst kv)" "\<not> (fst kv = ''type'' \<and> is_list (snd kv))"
    and "clean_value (snd kv) = snd kv" "fst kv \<notin> fst ` set acc"
  shows "clean_step [] kv acc = acc @ [kv]"
proof -
  have "clean_step [] kv acc = AList.update (fst kv) (clean_value (snd kv)) acc"
    using assms(1,2) unfolding clean_step_def Let_def by (simp only: if_False simp_thms)
  also have "\<dots> = acc @ [(fst kv, snd kv)]"
    using assms(3,4) by (simp add: update_fresh)
  finally show ?thesis by simp
qed

lemma fold_clean_step_fixed:
  assumes "distinct (map fst (acc @ xs))"
    and "\<And>kv. kv \<in> set xs \<Longrightarrow> \<not> removed_key (fst kv) \<and>
           \<not> (fst kv = ''type'' \<and> is_list (snd kv)) \<and> clean_value (snd kv) = snd kv"
  shows "fold (clean_step []) xs acc = acc @ xs"
  using assms
proof (induction xs arbitrary: acc)
  case Nil
  then show ?case by simp
next
  case (Cons kv xs)
  have fresh: "fst kv \<notin> fst ` set acc"
    using Cons.prems(1) by auto
  have step: "clean_step [] kv acc = acc @ [kv]"
    using Cons.prems(2) [of kv] fresh by (intro clean_step_fixed) simp_all
  have "fold (clean_step []) xs (acc @ [kv]) = (acc @ [kv]) @ xs"
    using Cons.prems by (intro Cons.IH) simp_all
  then show ?case
    by (simp add: step)
qed

lemma clean_finish_fixed:
  assumes "''properties'' \<in> fst ` set kvs \<longrightarrow> ''type'' \<in> fst ` set kvs"
  shows "clean_finish [] kvs = kvs"
proof -
  have "\<not> (''properties'' \<in> fst ` set kvs \<and> ''type'' \<notin> fst ` set kvs)"
    using assms by blast
  then show ?thesis
    unfolding clean_finish_def Let_def by (simp only: if_False simp_thms)
qed

lemma clean_json_schema_fixed: "sanitized y \<Longrightarrow> clean_json_schema y = y"
proof (induction y rule: clean_json_schema.induct)
  case (1 schema)
  define vs where "vs = schema_validations schema"
  note IH1 = "1.IH"(1) [folded removed_key_def, OF vs_def _ prod.collapse]
  note IH2 = "1.IH"(2) [folded removed_key_def, OF vs_def _ prod.collapse]
  have ok: "dict_ok schema"
    and pt: "''properties'' \<in> fst ` set schema \<longrightarrow> ''type'' \<in> fst ` set schema"
    using "1.prems" unfolding sanitized_dict by blast+
  have vs: "vs = []"
    unfolding vs_def using ok by (intro schema_validations_none) (simp add: dict_ok_def entry_ok_def)
  have fixed: "\<not> removed_key (fst kv) \<and> \<not> (fst kv = ''type'' \<and> is_list (snd kv)) \<and>
               clean_value (snd kv) = snd kv" if kv: "kv \<in> set schema" for kv
  proof -
    have e: "\<not> removed_key (fst kv)" "\<not> (fst kv = ''type'' \<and> is_list (snd kv))" "value_ok (snd kv)"
      using ok kv by (simp_all add: dict_ok_def entry_ok_def)
    have d: "\<not> (fst kv = ''description'' \<and> vs \<noteq> [])"
      by (simp add: vs)
    have "clean_value (snd kv) = snd kv"
    proof (cases "snd kv")
      case (JList items)
      have "clean_json_schema item = item" if "item \<in> set items" "item = JDict d" for item d
      proof -
        have "\<forall>item \<in> set items. case item of JDict _ \<Rightarrow> sanitized item | _ \<Rightarrow> True"
          using e(3) by (simp add: JList value_ok_def)
        then have "case item of JDict _ \<Rightarrow> sanitized item | _ \<Rightarrow> True"
          using that(1) by blast
        then have "sanitized item"
          unfolding that(2) by (simp only: json.case)
        then show ?thesis
          by (rule IH1 [OF kv e(1,2) d JList that])
      qed
      then have "map (\<lambda>item. case item of JDict _ \<Rightarrow> clean_json_schema item | _ \<Rightarrow> item) items = items"
        by (intro map_idI) (auto split: json.splits)
      then show ?thesis
        by (simp add: JList clean_value_def)
    next
      case (JDict d)
      have "sanitized (snd kv)"
        using e(3) by (simp add: JDict value_ok_def)
      then have "clean_json_schema (snd kv) = snd kv"
        by (rule IH2 [OF kv e(1,2) d JDict])
      then show ?thesis
        by (simp add: JDict clean_value_def)
    qed (simp_all add: clean_value_def)
    with e show ?thesis by simp
  qed
  have "fold (clean_step []) schema [] = [] @ schema"
    using ok fixed by (intro fold_clean_step_fixed) (simp_all add: dict_ok_def)
  then show ?case
    using pt by (simp add: clean_json_schema_dict vs [unfolded vs_def] clean_finish_fixed)
qed simp_all

text \<open>
  C8. The sanitizer is idempotent on every JSON value: its output is in sanitized form
  (\<open>sanitized_clean_json_schema\<close>), and it leaves every value in sanitized form unchanged
  (\<open>clean_json_schema_fixed\<close>). Equality is that of the model, which distinguishes more
  values than Python's \<open>==\<close> does.
\<close>

theorem clean_json_schema_idempotent:
  "clean_json_schema (clean_json_schema x) = clean_json_schema x"
  by (rule clean_json_schema_fixed) (rule sanitized_clean_json_schema)

section \<open>Properties of the generation config\<close>

lemma base_generation_config_no_thinking:
  "map_of (base_generation_config payload) ''thinkingConfig'' = None"
  by (simp add: base_generation_config_def Let_def update_conv')










subsection \<open>History without a leading thinking block\<close>

text \<open>
  \<open>assistant_with_blocks msg\<close>: the message is one the search stops at, an assistant
  message whose content is a non-empty list.
\<close>

definition assistant_with_blocks :: "json \<Rightarrow> bool" where
  "assistant_with_blocks msg =
     (case msg of
        JDict m \<Rightarrow> dict_get m ''role'' JNull = JStr ''assistant'' \<and>
                   is_list (dict_get m ''content'' JNull) \<and> truthy (dict_get m ''content'' JNull)
      | _ \<Rightarrow> False)"

lemma last_assistant_skip:
  "\<not> assistant_with_blocks msg \<Longrightarrow>
   last_assistant_first_block_type (msg # rest) = last_assistant_first_block_type rest"
  by (auto simp add: assistant_with_blocks_def is_list_def split: json.splits list.splits)

lemma last_assistant_skip_all:
  "\<forall>msg \<in> set later. \<not> assistant_with_blocks msg \<Longrightarrow>
   last_assistant_first_block_type (later @ rest) = last_assistant_first_block_type rest"
proof (induction later)
  case Nil
  then show ?case by simp
next
  case (Cons msg later)
  have "last_assistant_first_block_type (msg # (later @ rest)) =
        last_assistant_first_block_type (later @ rest)"
    using Cons.prems by (intro last_assistant_skip) simp
  also have "\<dots> = last_assistant_first_block_type rest"
    using Cons.prems by (intro Cons.IH) simp
  finally show ?case by (simp only: append_Cons)
qed

text \<open>
  C4, as the code has it. Let thinking be requested (\<open>thinking\<close> present, not null, and
  \<open>get_thinking_config\<close> gives \<open>includeThoughts\<close> true). If the most recent assistant
  message whose content is a non-empty list starts with a dict block whose \<open>type\<close> is a
  scalar other than null, \<open>"thinking"\<close> and \<open>"redacted_thinking"\<close>, then thinking is
  disabled: the result is the base config, without \<open>thinkingConfig\<close>, and
  \<open>include_thinking = False\<close>. Assistant messages whose content is a plain string or an
  empty list are passed over by the search.
\<close>

theorem build_generation_config_history_mismatch:
  assumes "map_of payload ''thinking'' = Some tv" and "tv \<noteq> JNull"
    and "truthy (dict_get (get_thinking_config tv) ''includeThoughts'' (JBool False))"
    and "py_iter (messages_or_empty payload) = Inr (earlier @ [JDict m] @ later)"
    and "\<forall>msg \<in> set later. \<not> assistant_with_blocks msg"
    and "dict_get m ''role'' JNull = JStr ''assistant''"
    and "dict_get m ''content'' JNull = JList (JDict first_block # others)"
    and "dict_get first_block ''type'' JNull = t"
    and "\<not> is_list t" and "\<forall>d. t \<noteq> JDict d"
    and "t \<noteq> JNull" and "t \<noteq> JStr ''thinking''" and "t \<noteq> JStr ''redacted_thinking''"
  shows "build_generation_config payload = Inr (base_generation_config payload, False) \<and>
         map_of (base_generation_config payload) ''thinkingConfig'' = None"
proof -
  have "last_assistant_first_block_type (rev (earlier @ [JDict m] @ later)) =
        last_assistant_first_block_type (JDict m # rev earlier)"
    using assms(5) by (simp add: last_assistant_skip_all)
  also have "\<dots> = t"
    using assms(6,7,8) by simp
  finally have last: "last_assistant_first_block_type (rev (earlier @ [JDict m] @ later)) = t" .
  have "not_in_thinking_types t = Inr True"
    using assms(9-13) by (cases t) (simp_all add: not_in_thinking_types_def is_list_def)
  then have "build_generation_config payload = Inr (base_generation_config payload, False)"
    using assms(1,2,3) last
    by (simp add: build_generation_config_def Let_def dict_get_def assms(4) bind_res_def)
  then show ?thesis
    by (simp add: base_generation_config_no_thinking)
qed

theorem build_generation_config_history_mismatch_witness:
  "build_generation_config
     [(''thinking'', JDict [(''type'', JStr ''enabled'')]),
      (''messages'', JList [JDict [(''role'', JStr ''assistant''),
                                   (''content'', JList [JDict [(''type'', JStr ''text''),
                                                               (''text'', JStr ''Hi'')]])],
                            JDict [(''role'', JStr ''user''), (''content'', JStr ''more'')]])]
   = Inr (base_generation_config
            [(''thinking'', JDict [(''type'', JStr ''enabled'')]),
             (''messages'', JList [JDict [(''role'', JStr ''assistant''),
                                   (''content'', JList [JDict [(''type'', JStr ''text''),
                                                               (''text'', JStr ''Hi'')]])],
                            JDict [(''role'', JStr ''user''), (''content'', JStr ''more'')]])],
          False)"
  using build_generation_config_history_mismatch
    [of "[(''thinking'', JDict [(''type'', JStr ''enabled'')]),
          (''messages'', JList [JDict [(''role'', JStr ''assistant''),
                                   (''content'', JList [JDict [(''type'', JStr ''text''),
                                                               (''text'', JStr ''Hi'')]])],
                            JDict [(''role'', JStr ''user''), (''content'', JStr ''more'')]])]"
        "JDict [(''type'', JStr ''enabled'')]"
        "[]"
        "[(''role'', JStr ''assistant''),
          (''content'', JList [JDict [(''type'', JStr ''text''), (''text'', JStr ''Hi'')]])]"
        "[JDict [(''role'', JStr ''user''), (''content'', JStr ''more'')]]"
        "[(''type'', JStr ''text''), (''text'', JStr ''Hi'')]"
        "[]"
        "JStr ''text''"]
  by (simp add: messages_or_empty_def dict_get_def py_iter_def get_thinking_config_def Let_def
        assistant_with_blocks_def is_list_def)

text \<open>
  The claim C4 as stated fails when the most recent assistant message has a plain string
  as content: thinking stays on.
\<close>

theorem build_generation_config_history_mismatch_counterexample:
  "build_generation_config
     [(''thinking'', JBool True),
      (''messages'', JList [JDict [(''role'', JStr ''assistant''), (''content'', JStr ''hi'')]])]
   = Inr ([(''topP'', JInt 1), (''topK'', JInt 40), (''candidateCount'', JInt 1),
           (''stopSequences'', JList [JStr ''<|user|>'', JStr ''<|bot|>'', JStr ''<|context_request|>'',
                                     JStr ''<|endoftext|>'', JStr ''<|end_of_turn|>'']),
           (''temperature'', JFloat ''0.4''),
           (''thinkingConfig'', JDict [(''includeThoughts'', JBool True),
                                       (''thinkingBudget'', JInt 1024)])], True)"
  by (simp add: build_generation_config_def base_generation_config_def Let_def dict_get_def
        get_thinking_config_def messages_or_empty_def py_iter_def bind_res_def
        not_in_thinking_types_def is_int_def is_list_def DEFAULT_TEMPERATURE_def
        DEFAULT_THINKING_BUDGET_def default_stop_sequences_def)

section \<open>Properties of the tool-result conversion\<close>

lemma convert_blocks_parts:
  "convert_blocks dumps include_thinking items = Inr parts \<Longrightarrow> item \<in> set items \<Longrightarrow>
   convert_block dumps include_thinking item = Inr ps \<Longrightarrow> set ps \<subseteq> set parts"
proof (induction items arbitrary: parts)
  case Nil
  then show ?case by simp
next
  case (Cons x xs)
  from Cons.prems(1) obtain p1 p2 where
    p1: "convert_block dumps include_thinking x = Inr p1" and
    p2: "convert_blocks dumps include_thinking xs = Inr p2" and
    parts: "parts = p1 @ p2"
    by (auto simp add: bind_res_def split: sum.splits)
  show ?case
  proof (cases "item = x")
    case True
    with Cons.prems(3) p1 parts show ?thesis by auto
  next
    case False
    with Cons.prems(2) have "item \<in> set xs" by simp
    from Cons.IH [OF p2 this Cons.prems(3)] parts show ?thesis by auto
  qed
qed

text \<open>
  \<open>is_text_part v\<close>: \<open>v\<close> is a dict whose \<open>type\<close> is \<open>"text"\<close>.
\<close>

definition is_text_part :: "json \<Rightarrow> bool" where
  "is_text_part v = (case v of JDict p \<Rightarrow> dict_get p ''type'' JNull = JStr ''text'' | _ \<Rightarrow> False)"

text \<open>
  C9, as the code has it. A \<open>tool_result\<close> block is converted to one \<open>functionResponse\<close>
  part, which is among the parts of its message; the part's \<open>id\<close> is the block's
  \<open>tool_use_id\<close>, and its \<open>response.output\<close> is decided by the first element of the
  content alone: the empty string when the content is absent, null or an empty list; the
  \<open>str\<close> of the \<open>text\<close> field of the first element when the content is a list whose first
  element is a text part; the \<open>str\<close> of the first element when the content is a list whose
  first element is not a text part; and the \<open>str\<close> of the content otherwise.
\<close>

theorem convert_block_tool_result:
  "dict_get d ''type'' JNull = JStr ''tool_result'' \<longrightarrow>
   (let content = dict_get d ''content'' JNull;
        part = JDict [(''functionResponse'',
                 JDict [(''id'', dict_get d ''tool_use_id'' JNull),
                        (''name'', dict_get d ''name'' (JStr [])),
                        (''response'', JDict [(''output'', JStr (extract_tool_result_output content))])])]
    in convert_block dumps include_thinking (JDict d) = Inr [part] \<and>
       (\<forall>items parts. JDict d \<in> set items \<and>
            convert_blocks dumps include_thinking items = Inr parts \<longrightarrow> part \<in> set parts) \<and>
       (content = JNull \<or> content = JList [] \<longrightarrow> extract_tool_result_output content = []) \<and>
       (\<forall>p rest. content = JList (JDict p # rest) \<and> is_text_part (JDict p) \<longrightarrow>
            extract_tool_result_output content = py_str (dict_get p ''text'' (JStr []))) \<and>
       (\<forall>first rest. content = JList (first # rest) \<and> \<not> is_text_part first \<longrightarrow>
            extract_tool_result_output content = py_str first) \<and>
       (content \<noteq> JNull \<and> \<not> is_list content \<longrightarrow>
            extract_tool_result_output content = py_str content))"
proof (intro impI)
  assume ty: "dict_get d ''type'' JNull = JStr ''tool_result''"
  define content where "content = dict_get d ''content'' JNull"
  define part where "part = JDict [(''functionResponse'',
                 JDict [(''id'', dict_get d ''tool_use_id'' JNull),
                        (''name'', dict_get d ''name'' (JStr [])),
                        (''response'', JDict [(''output'', JStr (extract_tool_result_output content))])])]"
  have block: "convert_block dumps include_thinking (JDict d) = Inr [part]"
    by (simp add: convert_block_def ty Let_def part_def content_def)
  have mem: "part \<in> set parts"
    if "JDict d \<in> set items" "convert_blocks dumps include_thinking items = Inr parts"
    for items parts
    using convert_blocks_parts [OF that(2) that(1) block] by simp
  have empty: "extract_tool_result_output content = []"
    if "content = JNull \<or> content = JList []"
    using that by (auto simp add: extract_tool_result_output_def)
  have tpart: "extract_tool_result_output content = py_str (dict_get p ''text'' (JStr []))"
    if "content = JList (JDict p # rest)" "is_text_part (JDict p)" for p rest
    using that by (simp add: extract_tool_result_output_def is_text_part_def)
  have other: "extract_tool_result_output content = py_str first"
    if "content = JList (first # rest)" "\<not> is_text_part first" for first rest
    using that by (cases first) (simp_all add: extract_tool_result_output_def is_text_part_def)
  have scalar: "extract_tool_result_output content = py_str content"
    if "content \<noteq> JNull" "\<not> is_list content"
    using that by (cases content) (simp_all add: extract_tool_result_output_def is_list_def)
  show "let content = dict_get d ''content'' JNull;
        part = JDict [(''functionResponse'',
                 JDict [(''id'', dict_get d ''tool_use_id'' JNull),
                        (''name'', dict_get d ''name'' (JStr [])),
                        (''response'', JDict [(''output'', JStr (extract_tool_result_output content))])])]
    in convert_block dumps include_thinking (JDict d) = Inr [part] \<and>
       (\<forall>items parts. JDict d \<in> set items \<and>
            convert_blocks dumps include_thinking items = Inr parts \<longrightarrow> part \<in> set parts) \<and>
       (content = JNull \<or> content = JList [] \<longrightarrow> extract_tool_result_output content = []) \<and>
       (\<forall>p rest. content = JList (JDict p # rest) \<and> is_text_part (JDict p) \<longrightarrow>
            extract_tool_result_output content = py_str (dict_get p ''text'' (JStr []))) \<and>
       (\<forall>first rest. content = JList (first # rest) \<and> \<not> is_text_part first \<longrightarrow>
            extract_tool_result_output content = py_str first) \<and>
       (content \<noteq> JNull \<and> \<not> is_list content \<longrightarrow>
            extract_tool_result_output content = py_str content)"
    unfolding Let_def content_def [symmetric] part_def [symmetric]
    using block mem empty tpart other scalar by blast
qed

theorem convert_block_tool_result_witness:
  "convert_block py_repr True
     (JDict [(''type'', JStr ''tool_result''), (''tool_use_id'', JStr ''t1''),
             (''content'', JList [JDict [(''type'', JStr ''text''), (''text'', JStr ''result'')]])])
   = Inr [JDict [(''functionResponse'',
            JDict [(''id'', JStr ''t1''), (''name'', JStr []),
                   (''response'', JDict [(''output'', JStr ''result'')])])]]"
  using convert_block_tool_result
    [of "[(''type'', JStr ''tool_result''), (''tool_use_id'', JStr ''t1''),
          (''content'', JList [JDict [(''type'', JStr ''text''), (''text'', JStr ''result'')]])]"
        py_repr True]
  by (simp add: dict_get_def Let_def is_text_part_def py_str_def is_list_def)

text \<open>
  The claim C9 as stated fails when a text part is not the first element of the content:
  the output is the \<open>str\<close> of the first element, not the text of the first text part.
\<close>

theorem convert_block_tool_result_counterexample:
  "convert_block py_repr True
     (JDict [(''type'', JStr ''tool_result''), (''tool_use_id'', JStr ''t1''),
             (''content'', JList [JDict [(''type'', JStr ''image'')],
                                  JDict [(''type'', JStr ''text''), (''text'', JStr ''hi'')]])])
   = Inr [JDict [(''functionResponse'',
            JDict [(''id'', JStr ''t1''), (''name'', JStr []),
                   (''response'',
                    JDict [(''output'',
                      JStr (''{'' @ [CHR 0x27] @ ''type'' @ [CHR 0x27] @ '': '' @
                            [CHR 0x27] @ ''image'' @ [CHR 0x27] @ ''}''))])])]]"
  by (simp add: convert_block_def extract_tool_result_output_def dict_get_def Let_def
        py_str_def repr_str_def repr_char_def printable_def join_def)

section \<open>Properties of rule matching\<close>

lemma is_thinking_iff:
  "is_thinking request \<longleftrightarrow>
     map_of request ''thinking'' = Some (JBool True) \<or>
     (\<exists>d. map_of request ''thinking'' = Some (JDict d) \<and> map_of d ''type'' = Some (JStr ''enabled''))"
  by (auto simp add: is_thinking_def dict_get_def split: option.splits json.splits)

text \<open>
  C6, as the code has it. \<open>matches\<close> returns true iff every populated clause holds: the
  rule's agent type (when a non-empty name) equals the given agent type or \<open>"default"\<close>;
  the rule's pattern (when non-empty) matches the request's model; the rule's
  \<open>thinking_enabled\<close> (when set) equals whether the request's \<open>thinking\<close> is the boolean
  true or a dict whose \<open>type\<close> key is present and equals \<open>"enabled"\<close>; and the context
  bounds (when set) hold. A dict with no \<open>type\<close> key does not count as enabled.
\<close>

theorem matches_iff_all_clauses:
  "matches re_match rule request agent context_tokens = Inr True \<longleftrightarrow>
     (\<forall>a. agent_type rule = Some a \<and> a \<noteq> [] \<longrightarrow>
          a = (case agent of Some g \<Rightarrow> if g \<noteq> [] then g else ''default'' | None \<Rightarrow> ''default'')) \<and>
     (\<forall>pat. model_pattern rule = Some pat \<and> pat \<noteq> [] \<longrightarrow>
          (\<exists>mdl. dict_get request ''model'' (JStr []) = JStr mdl \<and> re_match pat mdl = Inr True)) \<and>
     (\<forall>t. thinking_enabled rule = Some t \<longrightarrow>
          (t \<longleftrightarrow> map_of request ''thinking'' = Some (JBool True) \<or>
                (\<exists>d. map_of request ''thinking'' = Some (JDict d) \<and>
                     map_of d ''type'' = Some (JStr ''enabled'')))) \<and>
     (\<forall>lo. min_context_tokens rule = Some lo \<longrightarrow> lo \<le> context_tokens) \<and>
     (\<forall>hi. max_context_tokens rule = Some hi \<longrightarrow> context_tokens \<le> hi)"
proof -
  define agent_fails where "agent_fails =
    (case agent_type rule of
       Some a \<Rightarrow> a \<noteq> [] \<and>
                 a \<noteq> (case agent of Some g \<Rightarrow> if g \<noteq> [] then g else ''default'' | None \<Rightarrow> ''default'')
     | None \<Rightarrow> False)"
  define model_res where "model_res =
    (case model_pattern rule of
       Some pat \<Rightarrow>
         if pat \<noteq> [] then
           (case dict_get request ''model'' (JStr []) of
              JStr mdl \<Rightarrow> re_match pat mdl
            | _ \<Rightarrow> Inl TypeError)
         else Inr True
     | None \<Rightarrow> Inr True)"
  define rest_ok where "rest_ok \<longleftrightarrow>
     (\<forall>t. thinking_enabled rule = Some t \<longrightarrow> t = is_thinking request) \<and>
     (\<forall>lo. min_context_tokens rule = Some lo \<longrightarrow> lo \<le> context_tokens) \<and>
     (\<forall>hi. max_context_tokens rule = Some hi \<longrightarrow> context_tokens \<le> hi)"
  have m: "matches re_match rule request agent context_tokens = Inr True \<longleftrightarrow>
           \<not> agent_fails \<and> model_res = Inr True \<and> rest_ok"
    unfolding matches_def agent_fails_def [symmetric] model_res_def [symmetric] rest_ok_def
    by (cases model_res) (auto simp add: bind_res_def split: option.splits)
  have a: "\<not> agent_fails \<longleftrightarrow>
     (\<forall>a. agent_type rule = Some a \<and> a \<noteq> [] \<longrightarrow>
          a = (case agent of Some g \<Rightarrow> if g \<noteq> [] then g else ''default'' | None \<Rightarrow> ''default''))"
    by (auto simp add: agent_fails_def split: option.splits)
  have p: "model_res = Inr True \<longleftrightarrow>
     (\<forall>pat. model_pattern rule = Some pat \<and> pat \<noteq> [] \<longrightarrow>
          (\<exists>mdl. dict_get request ''model'' (JStr []) = JStr mdl \<and> re_match pat mdl = Inr True))"
    by (auto simp add: model_res_def split: option.splits json.splits)
  show ?thesis
    unfolding m a p rest_ok_def is_thinking_iff by blast
qed

text \<open>A stand-in for the regular-expression engine on inputs where no pattern is consulted.\<close>

definition never_match :: "string \<Rightarrow> string \<Rightarrow> py_error + bool" where
  "never_match pat s = Inr False"

definition thinking_rule :: RoutingRule where
  "thinking_rule =
     \<lparr>name = ''thinking-rule'', provider = ''think'', priority = 0, agent_type = None,
      model_pattern = None, thinking_enabled = Some True, min_context_tokens = None,
      max_context_tokens = None, fallback_provider = None\<rparr>"

theorem matches_iff_all_clauses_witness:
  "matches never_match thinking_rule [(''thinking'', JDict [(''type'', JStr ''enabled'')])] None 0
     = Inr True"
  using matches_iff_all_clauses
    [of never_match thinking_rule "[(''thinking'', JDict [(''type'', JStr ''enabled'')])]" None 0]
  by (simp add: thinking_rule_def)

text \<open>
  The claim C6 as stated fails for a \<open>thinking\<close> dict with no \<open>type\<close> key: the rule's only
  populated clause is \<open>thinking_enabled = True\<close>, the request translator resolves that
  value to thinking on (\<open>get_thinking_config\<close> gives \<open>includeThoughts\<close> true), and yet
  \<open>matches\<close> returns false.
\<close>

theorem matches_thinking_counterexample:
  "matches never_match thinking_rule [(''thinking'', JDict [])] None 0 = Inr False \<and>
   get_thinking_config (JDict []) =
     [(''includeThoughts'', JBool True), (''thinkingBudget'', JInt 1024)]"
  by (simp add: matches_def thinking_rule_def is_thinking_def dict_get_def bind_res_def
        get_thinking_config_def Let_def DEFAULT_THINKING_BUDGET_def)

section \<open>The event grammar\<close>

text \<open>
  The kind of an event: what the grammar of the output reads of it, the name and, for the
  three block events, the value of \<open>index\<close>.
\<close>

datatype kind = MStart | BStart int | BDelta int | BStop int | MDelta | MStop | Other

definition event_index :: "json \<Rightarrow> int option" where
  "event_index data =
     (case data of
        JDict d \<Rightarrow> (case map_of d ''index'' of Some (JInt i) \<Rightarrow> Some i | _ \<Rightarrow> None)
      | _ \<Rightarrow> None)"

definition ev_kind :: "event \<Rightarrow> kind" where
  "ev_kind ev =
     (if fst ev = ''message_start'' then MStart
      else if fst ev = ''message_delta'' then MDelta
      else if fst ev = ''message_stop'' then MStop
      else case event_index (snd ev) of
             None \<Rightarrow> Other
           | Some i \<Rightarrow>
               if fst ev = ''content_block_start'' then BStart i
               else if fst ev = ''content_block_delta'' then BDelta i
               else if fst ev = ''content_block_stop'' then BStop i
               else Other)"

text \<open>
  \<open>blocks k ds\<close>: complete content blocks with the indices \<open>k, k + 1, \<dots>\<close>, the block at
  position \<open>j\<close> being one start, \<open>ds ! j\<close> deltas and one stop, all with index \<open>k + j\<close>.
\<close>

fun blocks :: "int \<Rightarrow> nat list \<Rightarrow> kind list" where
  "blocks k [] = []"
| "blocks k (d # ds) = BStart k # replicate d (BDelta k) @ BStop k # blocks (k + 1) ds"

text \<open>
  The grammar of a stream: one \<open>message_start\<close>, complete blocks with indices
  \<open>0, 1, \<dots>\<close>, one \<open>message_delta\<close>, one \<open>message_stop\<close>.
\<close>

definition valid_stream :: "event list \<Rightarrow> bool" where
  "valid_stream evs \<longleftrightarrow> (\<exists>ds. map ev_kind evs = MStart # blocks 0 ds @ [MDelta, MStop])"

text \<open>
  A scanner for prefixes of block sequences. Its state is the index of the last block
  started and whether that block is still open.
\<close>

fun scan_step :: "int \<times> bool \<Rightarrow> kind \<Rightarrow> (int \<times> bool) option" where
  "scan_step (i, opn) (BStart j) = (if \<not> opn \<and> j = i + 1 then Some (j, True) else None)"
| "scan_step (i, opn) (BDelta j) = (if opn \<and> j = i then Some (i, True) else None)"
| "scan_step (i, opn) (BStop j) = (if opn \<and> j = i then Some (i, False) else None)"
| "scan_step (i, opn) _ = None"

fun scan :: "int \<times> bool \<Rightarrow> kind list \<Rightarrow> (int \<times> bool) option" where
  "scan c [] = Some c"
| "scan c (k # ks) = (case scan_step c k of None \<Rightarrow> None | Some c' \<Rightarrow> scan c' ks)"

lemma scan_append:
  "scan c (ks @ ks') = (case scan c ks of None \<Rightarrow> None | Some c' \<Rightarrow> scan c' ks')"
  by (induction ks arbitrary: c) (auto split: option.splits)

lemma scan_blocks:
  "scan (i, opn) ks = Some (j, False) \<Longrightarrow>
   (if opn then \<exists>d ds. ks = replicate d (BDelta i) @ BStop i # blocks (i + 1) ds
    else \<exists>ds. ks = blocks (i + 1) ds)"
proof (induction ks arbitrary: i opn)
  case Nil
  then have "\<not> opn" by simp
  moreover have "[] = blocks (i + 1) []" by simp
  ultimately show ?case by metis
next
  case (Cons k ks)
  from Cons.prems obtain c where step: "scan_step (i, opn) k = Some c" and rest: "scan c ks = Some (j, False)"
    by (auto split: option.splits)
  show ?case
  proof (cases k)
    case (BStart x)
    with step have c: "\<not> opn" "x = i + 1" "c = (i + 1, True)"
      by (auto split: if_splits)
    from Cons.IH [of "i + 1" True] rest c obtain d ds
      where "ks = replicate d (BDelta (i + 1)) @ BStop (i + 1) # blocks (i + 1 + 1) ds"
      by auto
    then have "k # ks = blocks (i + 1) (d # ds)"
      using BStart c by simp
    with c show ?thesis by metis
  next
    case (BDelta x)
    with step have c: "opn" "x = i" "c = (i, True)"
      by (auto split: if_splits)
    from Cons.IH [of i True] rest c obtain d ds
      where "ks = replicate d (BDelta i) @ BStop i # blocks (i + 1) ds"
      by auto
    then have "k # ks = replicate (Suc d) (BDelta i) @ BStop i # blocks (i + 1) ds"
      using BDelta c by simp
    with c show ?thesis by metis
  next
    case (BStop x)
    with step have c: "opn" "x = i" "c = (i, False)"
      by (auto split: if_splits)
    from Cons.IH [of i False] rest c obtain ds where "ks = blocks (i + 1) ds"
      by auto
    then have "k # ks = replicate 0 (BDelta i) @ BStop i # blocks (i + 1) ds"
      using BStop c by simp
    with c show ?thesis by metis
  qed (use step in simp_all)
qed

lemma ev_kind_simps [simp]:
  "ev_kind (block_start_event i b) = BStart i"
  "ev_kind (block_delta_event i dl) = BDelta i"
  "ev_kind (block_stop_event i) = BStop i"
  "ev_kind (message_start_event args n) = MStart"
  "ev_kind (message_delta_event args s) = MDelta"
  "ev_kind (sse_event ''message_stop'' x) = MStop"
  by (simp_all add: ev_kind_def event_index_def block_start_event_def block_delta_event_def
        block_stop_event_def message_start_event_def message_delta_event_def sse_event_def Let_def)

section \<open>What one step of the translator adds\<close>

text \<open>
  \<open>cur g\<close>: the scanner state the generator stands for. \<open>same_usage\<close>: the fields a step
  on parts leaves alone.
\<close>

definition cur :: "Generator \<Rightarrow> int \<times> bool" where
  "cur g = (current_block_index (state g), current_block_type (state g) \<noteq> None)"

definition same_usage :: "Generator \<Rightarrow> Generator \<Rightarrow> bool" where
  "same_usage g g' \<longleftrightarrow>
     message_start_sent g' = message_start_sent g \<and>
     has_input_tokens (state g') = has_input_tokens (state g) \<and>
     input_tokens (state g') = input_tokens (state g)"

text \<open>
  \<open>adds gr gr' evs\<close>: from \<open>gr\<close> to \<open>gr'\<close> the events \<open>evs\<close> were emitted, to the events of
  the line when \<open>message_start\<close> was sent, to the pending queue otherwise.
\<close>

definition adds :: "Generator \<times> event list \<Rightarrow> Generator \<times> event list \<Rightarrow> event list \<Rightarrow> bool" where
  "adds gr gr' evs \<longleftrightarrow>
     same_usage (fst gr) (fst gr') \<and>
     (if message_start_sent (fst gr)
      then snd gr' = snd gr @ evs \<and> pending_output (fst gr') = pending_output (fst gr)
      else snd gr' = snd gr \<and> pending_output (fst gr') = pending_output (fst gr) @ evs)"

definition proper :: "Generator \<times> event list \<Rightarrow> Generator \<times> event list \<Rightarrow> bool" where
  "proper gr gr' \<longleftrightarrow>
     (\<exists>evs. adds gr gr' evs \<and> scan (cur (fst gr)) (map ev_kind evs) = Some (cur (fst gr')))"

lemma proper_refl: "proper gr gr"
  unfolding proper_def adds_def same_usage_def
  by (intro exI [of _ "[]"]) simp

lemma proper_trans:
  assumes "proper a b" "proper b c"
  shows "proper a c"
proof -
  from assms(1) obtain e1 where e1: "adds a b e1" "scan (cur (fst a)) (map ev_kind e1) = Some (cur (fst b))"
    unfolding proper_def by blast
  from assms(2) obtain e2 where e2: "adds b c e2" "scan (cur (fst b)) (map ev_kind e2) = Some (cur (fst c))"
    unfolding proper_def by blast
  have "adds a c (e1 @ e2)"
    using e1(1) e2(1) unfolding adds_def same_usage_def by (auto split: if_splits)
  moreover have "scan (cur (fst a)) (map ev_kind (e1 @ e2)) = Some (cur (fst c))"
    using e1(2) e2(2) by (simp add: scan_append)
  ultimately show ?thesis
    unfolding proper_def by blast
qed

text \<open>A change of the state followed by the emission of one event.\<close>

lemma proper_emit:
  assumes "scan_step (cur g) (ev_kind evt) = Some (cur g')"
    and "same_usage g g'" and "pending_output g' = pending_output g"
  shows "proper (g, r) (emit evt (g', r))"
proof -
  have "adds (g, r) (emit evt (g', r)) [evt]"
    using assms(2,3) unfolding adds_def emit_def same_usage_def by simp
  moreover have "scan (cur g) (map ev_kind [evt]) = Some (cur (fst (emit evt (g', r))))"
    using assms(1) by (simp add: emit_def cur_def)
  ultimately show ?thesis
    unfolding proper_def by (metis fst_conv)
qed

text \<open>A change that emits nothing and leaves the block state alone.\<close>

lemma proper_silent:
  assumes "cur g' = cur g" "same_usage g g'" "pending_output g' = pending_output g"
  shows "proper (g, r) (g', r)"
  unfolding proper_def adds_def
  using assms by (intro exI [of _ "[]"]) simp

lemma cur_emit [simp]: "cur (fst (emit evt gr)) = cur (fst gr)"
  by (cases gr) (simp add: emit_def cur_def)

lemma proper_close_current: "proper gr (close_current gr)"
proof (cases gr)
  case (Pair g r)
  show ?thesis
  proof (cases "current_block_type (state g)")
    case None
    then have "close_current (g, r) = (g\<lparr>state := state g\<rparr>, r)"
      by (simp add: close_current_def close_block_if_open_def)
    then show ?thesis
      unfolding Pair by (simp add: proper_refl)
  next
    case (Some t)
    define g' where "g' = g\<lparr>state := (state g)\<lparr>current_block_type := None, current_thinking_signature := JNull\<rparr>\<rparr>"
    have eq: "close_current (g, r) = emit (block_stop_event (current_block_index (state g))) (g', r)"
      using Some by (simp add: close_current_def close_block_if_open_def g'_def)
    have "proper (g, r) (emit (block_stop_event (current_block_index (state g))) (g', r))"
      using Some by (intro proper_emit) (simp_all add: cur_def g'_def same_usage_def)
    then show ?thesis
      unfolding Pair eq .
  qed
qed

lemma cur_close_current: "cur (fst (close_current gr)) = (fst (cur (fst gr)), False)"
  by (cases gr)
     (auto simp add: close_current_def close_block_if_open_def cur_def emit_def Let_def
           split: option.splits)

lemma proper_open_text_block:
  assumes "\<not> snd (cur g)" "open_text_block (state g) = (evt, s)"
  shows "proper (g, r) (emit evt (g\<lparr>state := s\<rparr>, r))"
    and "cur (g\<lparr>state := s\<rparr>) = (fst (cur g) + 1, True)"
    and "current_block_type s = Some ''text''"
  using assms
  by (auto simp add: open_text_block_def next_index_def Let_def cur_def same_usage_def
        intro!: proper_emit)

lemma proper_open_thinking_block:
  assumes "\<not> snd (cur g)" "open_thinking_block sg (state g) = (evt, s)"
  shows "proper (g, r) (emit evt (g\<lparr>state := s\<rparr>, r))"
    and "cur (g\<lparr>state := s\<rparr>) = (fst (cur g) + 1, True)"
    and "current_block_type s = Some ''thinking''"
  using assms
  by (auto simp add: open_thinking_block_def next_index_def Let_def cur_def same_usage_def
        intro!: proper_emit)

lemma proper_delta:
  assumes "snd (cur g)"
  shows "proper (g, r) (emit (block_delta_event (current_block_index (state g)) dl) (g, r))"
  using assms by (intro proper_emit) (simp_all add: cur_def same_usage_def)

lemma proper_emit2:
  assumes "scan (cur g) [ev_kind e1, ev_kind e2] = Some (cur g')"
    and "same_usage g g'" and "pending_output g' = pending_output g"
  shows "proper (g, r) (emit e2 (emit e1 (g', r)))"
proof -
  have "adds (g, r) (emit e2 (emit e1 (g', r))) [e1, e2]"
    using assms(2,3) unfolding adds_def emit_def same_usage_def by simp
  moreover have "scan (cur g) (map ev_kind [e1, e2]) = Some (cur (fst (emit e2 (emit e1 (g', r)))))"
    using assms(1) by simp
  ultimately show ?thesis
    unfolding proper_def by (metis fst_conv)
qed

lemma proper_emit3:
  assumes "scan (cur g) [ev_kind e1, ev_kind e2, ev_kind e3] = Some (cur g')"
    and "same_usage g g'" and "pending_output g' = pending_output g"
  shows "proper (g, r) (emit e3 (emit e2 (emit e1 (g', r))))"
proof -
  have "adds (g, r) (emit e3 (emit e2 (emit e1 (g', r)))) [e1, e2, e3]"
    using assms(2,3) unfolding adds_def emit_def same_usage_def by simp
  moreover have "scan (cur g) (map ev_kind [e1, e2, e3])
                 = Some (cur (fst (emit e3 (emit e2 (emit e1 (g', r))))))"
    using assms(1) by simp
  ultimately show ?thesis
    unfolding proper_def by (metis fst_conv)
qed

lemma proper_signature_delta: "proper gr (signature_delta sg gr)"
proof (cases gr)
  case (Pair g r)
  show ?thesis
  proof (cases "truthy sg \<and> current_block_type (state g) = Some ''thinking''
                  \<and> \<not> truthy (current_thinking_signature (state g))")
    case True
    define g' where "g' = g\<lparr>state := (state g)\<lparr>current_thinking_signature := JStr (py_str sg)\<rparr>\<rparr>"
    have eq: "signature_delta sg (g, r) =
              emit (block_delta_event (current_block_index (state g))
                      (JDict [(''type'', JStr ''signature_delta''), (''signature'', sg)])) (g', r)"
      using True by (simp add: signature_delta_def Let_def g'_def)
    show ?thesis
      unfolding Pair eq using True
      by (intro proper_emit) (simp_all add: cur_def g'_def same_usage_def)
  next
    case False
    then have "signature_delta sg (g, r) = (g, r)"
      by (auto simp add: signature_delta_def Let_def)
    then show ?thesis
      unfolding Pair by (simp add: proper_refl)
  qed
qed

text \<open>Closing the current block and opening a thinking or a text block.\<close>

lemma proper_reopen_thinking:
  assumes "close_current gr = (g1, r1)" "open_thinking_block sg (state g1) = (evt, s)"
  shows "proper gr (emit evt (g1\<lparr>state := s\<rparr>, r1))"
    and "snd (cur (fst (emit evt (g1\<lparr>state := s\<rparr>, r1))))"
proof -
  have c: "\<not> snd (cur g1)"
    using cur_close_current [of gr] assms(1) by simp
  have "proper gr (g1, r1)"
    using proper_close_current [of gr] assms(1) by simp
  then show "proper gr (emit evt (g1\<lparr>state := s\<rparr>, r1))"
    using proper_open_thinking_block(1) [OF c assms(2)] by (rule proper_trans)
  show "snd (cur (fst (emit evt (g1\<lparr>state := s\<rparr>, r1))))"
    using proper_open_thinking_block(2) [OF c assms(2)] by simp
qed

lemma proper_reopen_text:
  assumes "close_current gr = (g1, r1)" "open_text_block (state g1) = (evt, s)"
  shows "proper gr (emit evt (g1\<lparr>state := s\<rparr>, r1))"
    and "snd (cur (fst (emit evt (g1\<lparr>state := s\<rparr>, r1))))"
proof -
  have c: "\<not> snd (cur g1)"
    using cur_close_current [of gr] assms(1) by simp
  have "proper gr (g1, r1)"
    using proper_close_current [of gr] assms(1) by simp
  then show "proper gr (emit evt (g1\<lparr>state := s\<rparr>, r1))"
    using proper_open_text_block(1) [OF c assms(2)] by (rule proper_trans)
  show "snd (cur (fst (emit evt (g1\<lparr>state := s\<rparr>, r1))))"
    using proper_open_text_block(2) [OF c assms(2)] by simp
qed

lemma proper_delta_pair:
  assumes "snd (cur (fst gr))"
  shows "proper gr (emit (block_delta_event (current_block_index (state (fst gr))) dl) gr)"
  using proper_delta [of "fst gr" "snd gr" dl] assms by simp

lemma proper_thought_part:
  assumes "thought_part args part gr = Inr gr'"
  shows "proper gr gr'"
proof (cases gr)
  case (Pair g r)
  define thinking_text where "thinking_text = dict_get part ''text'' (JStr [])"
  show ?thesis
  proof (cases "client_thinking_enabled args")
    case False
    show ?thesis
    proof (cases "thinking_to_text args \<and> truthy thinking_text")
      case True
      with False assms obtain t where
        "gr' = (g\<lparr>thinking_text_buffer := thinking_text_buffer g @ t\<rparr>, r)"
        unfolding Pair thought_part_def thinking_text_def [symmetric]
        by (auto simp add: Let_def split: json.splits)
      then show ?thesis
        unfolding Pair by (simp add: proper_silent cur_def same_usage_def)
    next
      case nobuf: False
      with False assms have "gr' = gr"
        unfolding Pair thought_part_def thinking_text_def [symmetric]
        by (auto simp add: Let_def)
      then show ?thesis by (simp add: proper_refl)
    qed
  next
    case True
    define gr1 where "gr1 =
      (if current_block_type (state g) \<noteq> Some ''thinking'' then
         (let (g, ready_output) = close_current gr;
              signature = dict_get part ''thoughtSignature'' JNull;
              (evt, s) = open_thinking_block signature (state g)
          in emit evt (g\<lparr>state := s\<rparr>, ready_output))
       else gr)"
    have res: "gr' = (if truthy thinking_text then
                 emit (block_delta_event (current_block_index (state (fst gr1)))
                              (JDict [(''type'', JStr ''thinking_delta''),
                                      (''thinking'', thinking_text)])) gr1
               else gr1)"
      using assms True
      unfolding Pair thought_part_def thinking_text_def [symmetric] gr1_def Let_def
      by (simp add: Pair split: if_splits)
    have p1: "proper gr gr1 \<and> snd (cur (fst gr1))"
    proof (cases "current_block_type (state g) \<noteq> Some ''thinking''")
      case ne: True
      obtain g1 r1 where c: "close_current gr = (g1, r1)" by (cases "close_current gr")
      obtain evt s where
        ob: "open_thinking_block (dict_get part ''thoughtSignature'' JNull) (state g1) = (evt, s)"
        by (cases "open_thinking_block (dict_get part ''thoughtSignature'' JNull) (state g1)")
      have "gr1 = emit evt (g1\<lparr>state := s\<rparr>, r1)"
        using ne by (simp add: gr1_def c ob Let_def)
      then show ?thesis
        using proper_reopen_thinking [OF c ob] by simp
    next
      case eq: False
      then have "gr1 = gr" by (simp add: gr1_def)
      then show ?thesis
        using eq by (simp add: proper_refl Pair cur_def)
    qed
    show ?thesis
    proof (cases "truthy thinking_text")
      case tt: True
      have "proper gr1 gr'"
        unfolding res using tt p1 by (simp add: proper_delta_pair)
      with p1 show ?thesis by (blast intro: proper_trans)
    next
      case ff: False
      with res p1 show ?thesis by simp
    qed
  qed
qed

lemma proper_text_part: "proper gr (text_part part gr)"
proof -
  define tx where "tx = dict_get part ''text'' (JStr [])"
  show ?thesis
  proof (cases "case tx of JStr t \<Rightarrow> strip t = [] | _ \<Rightarrow> False")
    case True
    then have "text_part part gr = gr"
      unfolding text_part_def tx_def [symmetric] by (simp add: Let_def)
    then show ?thesis by (simp add: proper_refl)
  next
    case False
    define gr1 where "gr1 =
      (if current_block_type (state (fst gr)) \<noteq> Some ''text'' then
         (let (g, ready_output) = close_current gr;
              (evt, s) = open_text_block (state g)
          in emit evt (g\<lparr>state := s\<rparr>, ready_output))
       else gr)"
    define gr2 where "gr2 =
      (if thinking_text_buffer (fst gr1) \<noteq> [] then
         (let (g, ready_output) =
                emit (block_delta_event (current_block_index (state (fst gr1)))
                        (JDict [(''type'', JStr ''text_delta''),
                                (''text'', JStr (wrapped_thinking (thinking_text_buffer (fst gr1))))]))
                     gr1
          in (g\<lparr>thinking_text_buffer := []\<rparr>, ready_output))
       else gr1)"
    have res: "text_part part gr =
       (if truthy tx then
          emit (block_delta_event (current_block_index (state (fst gr2)))
                  (JDict [(''type'', JStr ''text_delta''), (''text'', tx)])) gr2
        else gr2)"
      using False
      unfolding text_part_def tx_def [symmetric] gr1_def gr2_def Let_def
      by simp
    have p1: "proper gr gr1 \<and> snd (cur (fst gr1))"
    proof (cases "current_block_type (state (fst gr)) \<noteq> Some ''text''")
      case ne: True
      obtain g1 r1 where c: "close_current gr = (g1, r1)" by (cases "close_current gr")
      obtain evt s where ob: "open_text_block (state g1) = (evt, s)"
        by (cases "open_text_block (state g1)")
      have "gr1 = emit evt (g1\<lparr>state := s\<rparr>, r1)"
        using ne by (simp add: gr1_def c ob Let_def)
      then show ?thesis
        using proper_reopen_text [OF c ob] by simp
    next
      case eq: False
      then have "gr1 = gr" by (simp add: gr1_def)
      then show ?thesis
        using eq by (simp add: proper_refl cur_def)
    qed
    have p2: "proper gr1 gr2 \<and> snd (cur (fst gr2))"
    proof (cases "thinking_text_buffer (fst gr1) \<noteq> []")
      case True
      define mid where "mid = emit (block_delta_event (current_block_index (state (fst gr1)))
                        (JDict [(''type'', JStr ''text_delta''),
                                (''text'', JStr (wrapped_thinking (thinking_text_buffer (fst gr1))))]))
                     gr1"
      have m: "proper gr1 mid" "snd (cur (fst mid))"
        unfolding mid_def using p1 by (simp_all add: proper_delta_pair)
      have g2: "gr2 = ((fst mid)\<lparr>thinking_text_buffer := []\<rparr>, snd mid)"
        using True by (simp add: gr2_def mid_def [symmetric] Let_def split: prod.splits)
      have "proper (fst mid, snd mid) ((fst mid)\<lparr>thinking_text_buffer := []\<rparr>, snd mid)"
        by (intro proper_silent) (simp_all add: cur_def same_usage_def)
      then have "proper mid gr2"
        by (simp add: g2)
      with m show ?thesis
        by (auto intro: proper_trans simp add: g2 cur_def)
    next
      case False
      then have "gr2 = gr1" by (simp add: gr2_def)
      with p1 show ?thesis by (simp add: proper_refl)
    qed
    have p3: "proper gr2 (text_part part gr)"
      unfolding res using p2 by (simp add: proper_delta_pair proper_refl)
    from p1 p2 p3 show ?thesis
      by (blast intro: proper_trans)
  qed
qed

lemma proper_inline_data_part:
  assumes "inline_data_part part gr = Inr gr'"
  shows "proper gr gr'"
proof -
  obtain g1 r1 where c: "close_current gr = (g1, r1)" by (cases "close_current gr")
  have c1: "cur g1 = (current_block_index (state g1), False)"
    using cur_close_current [of gr] c by (simp add: cur_def)
  define idx where "idx = current_block_index (state g1) + 1"
  define s where "s = (state g1)\<lparr>current_block_index := idx\<rparr>"
  from assms obtain inline where i: "get_dict part ''inlineData'' = Inr inline"
    unfolding inline_data_part_def c by (auto simp add: bind_res_def Let_def split: sum.splits)
  define block where "block = JDict [(''type'', JStr ''image''),
                              (''source'',
                               JDict [(''type'', JStr ''base64''),
                                      (''media_type'', dict_get inline ''mimeType'' (JStr ''image/png'')),
                                      (''data'', dict_get inline ''data'' (JStr []))])]"
  have res: "gr' = emit (block_stop_event idx) (emit (block_start_event idx block) (g1\<lparr>state := s\<rparr>, r1))"
    using assms unfolding inline_data_part_def c
    by (simp add: i bind_res_def next_index_def Let_def idx_def s_def block_def)
  have "proper (g1, r1) (emit (block_stop_event idx) (emit (block_start_event idx block) (g1\<lparr>state := s\<rparr>, r1)))"
    using c1 by (intro proper_emit2) (simp_all add: idx_def s_def cur_def same_usage_def)
  moreover have "proper gr (g1, r1)"
    using proper_close_current [of gr] c by simp
  ultimately show ?thesis
    unfolding res by (blast intro: proper_trans)
qed

lemma proper_function_call_part:
  assumes "function_call_part lib part gr = Inr gr'"
  shows "proper gr gr'"
proof -
  obtain g1 r1 where c: "close_current gr = (g1, r1)" by (cases "close_current gr")
  have c1: "cur g1 = (current_block_index (state g1), False)"
    using cur_close_current [of gr] c by (simp add: cur_def)
  define g2 where "g2 = g1\<lparr>state := (state g1)\<lparr>has_tool_use := True\<rparr>\<rparr>"
  define idx where "idx = current_block_index (state g1) + 1"
  define s where "s = (state g2)\<lparr>current_block_index := idx\<rparr>"
  from assms obtain fc where fc: "get_dict part ''functionCall'' = Inr fc"
    unfolding function_call_part_def c by (auto simp add: bind_res_def Let_def split: sum.splits)
  define args_v where "args_v = (if truthy (dict_get fc ''args'' (JDict []))
                                 then dict_get fc ''args'' (JDict []) else JDict [])"
  from assms obtain tool_args where ta: "remove_nulls_for_tool_input lib args_v = Inr tool_args"
    unfolding function_call_part_def c args_v_def
    by (auto simp add: fc bind_res_def Let_def split: sum.splits)
  obtain b dl where
    res: "gr' = emit (block_stop_event idx) (emit (block_delta_event idx dl)
                  (emit (block_start_event idx b) (g2\<lparr>state := s\<rparr>, r1)))"
    using assms unfolding function_call_part_def c
    by (simp add: fc ta [unfolded args_v_def] bind_res_def next_index_def Let_def idx_def s_def g2_def)
       blast
  have "proper (g1, r1) (emit (block_stop_event idx) (emit (block_delta_event idx dl)
                  (emit (block_start_event idx b) (g2\<lparr>state := s\<rparr>, r1))))"
    using c1 by (intro proper_emit3) (simp_all add: idx_def s_def cur_def g2_def same_usage_def)
  moreover have "proper gr (g1, r1)"
    using proper_close_current [of gr] c by simp
  ultimately show ?thesis
    unfolding res by (blast intro: proper_trans)
qed

lemma proper_process_part:
  assumes "process_part lib args part_v gr = Inr gr'"
  shows "proper gr gr'"
proof (cases part_v)
  case (JDict part)
  define gr1 where "gr1 = signature_delta (dict_get part ''thoughtSignature'' JNull) gr"
  have p1: "proper gr gr1"
    unfolding gr1_def by (rule proper_signature_delta)
  have "proper gr1 gr'"
    using assms
    unfolding JDict process_part_def json.case Let_def gr1_def [symmetric]
    by (auto simp add: proper_thought_part proper_inline_data_part proper_function_call_part
          proper_text_part proper_refl split: if_splits)
  with p1 show ?thesis by (rule proper_trans)
qed (use assms in \<open>simp_all add: process_part_def proper_refl\<close>)

lemma proper_process_parts:
  "process_parts lib args parts gr = Inr gr' \<Longrightarrow> proper gr gr'"
proof (induction parts arbitrary: gr)
  case Nil
  then show ?case by (simp add: proper_refl)
next
  case (Cons part_v parts)
  from Cons.prems obtain gr1 where
    a: "process_part lib args part_v gr = Inr gr1" and
    b: "process_parts lib args parts gr1 = Inr gr'"
    by (auto simp add: bind_res_def split: sum.splits)
  from proper_process_part [OF a] Cons.IH [OF b] show ?case
    by (rule proper_trans)
qed

section \<open>The invariant of the loop\<close>

text \<open>
  \<open>inv g out\<close>, with \<open>out\<close> the events yielded or ready to be yielded. Before
  \<open>message_start\<close> is sent nothing is out and the pending queue is a prefix of a block
  sequence; afterwards the queue is empty and \<open>out\<close> is \<open>message_start\<close> followed by such
  a prefix. The prefix ends in the block state of the generator.
\<close>

definition inv :: "Generator \<Rightarrow> event list \<Rightarrow> bool" where
  "inv g out \<longleftrightarrow>
     (if message_start_sent g
      then pending_output g = [] \<and>
           (\<exists>ms body. out = ms # body \<and> ev_kind ms = MStart \<and>
                       scan (- 1, False) (map ev_kind body) = Some (cur g))
      else out = [] \<and> scan (- 1, False) (map ev_kind (pending_output g)) = Some (cur g))"

lemma inv_init: "inv init_generator []"
  by (simp add: inv_def init_generator_def init_state_def cur_def)

lemma inv_proper:
  assumes "inv g (y @ r)" "proper (g, r) (g', r')"
  shows "inv g' (y @ r')"
proof -
  from assms(2) obtain evs where
    a: "adds (g, r) (g', r') evs" and s: "scan (cur g) (map ev_kind evs) = Some (cur g')"
    unfolding proper_def by auto
  have sent: "message_start_sent g' = message_start_sent g"
    using a by (simp add: adds_def same_usage_def)
  show ?thesis
  proof (cases "message_start_sent g")
    case True
    with a have r': "r' = r @ evs" and p: "pending_output g' = pending_output g"
      by (simp_all add: adds_def)
    from assms(1) True obtain ms body where
      o: "y @ r = ms # body" "ev_kind ms = MStart"
         "scan (- 1, False) (map ev_kind body) = Some (cur g)" and pe: "pending_output g = []"
      by (auto simp add: inv_def)
    have "y @ r' = ms # (body @ evs)"
      using o(1) r' by (metis append_Cons append_assoc)
    moreover have "scan (- 1, False) (map ev_kind (body @ evs)) = Some (cur g')"
      using o(3) s by (simp add: scan_append)
    ultimately show ?thesis
      using True sent p pe o(2) unfolding inv_def by auto
  next
    case False
    with a have r': "r' = r" and p: "pending_output g' = pending_output g @ evs"
      by (simp_all add: adds_def)
    from assms(1) False have o: "y @ r = []"
      "scan (- 1, False) (map ev_kind (pending_output g)) = Some (cur g)"
      by (auto simp add: inv_def)
    have "scan (- 1, False) (map ev_kind (pending_output g')) = Some (cur g')"
      using o(2) s by (simp add: p scan_append)
    then show ?thesis
      using False sent o(1) r' unfolding inv_def by auto
  qed
qed

lemma inv_send_message_start:
  assumes "inv g (y @ r)" "send_message_start args n (g, r) = (g', r')"
  shows "inv g' (y @ r')" and "cur g' = cur g" and "message_start_sent g'"
proof -
  show "inv g' (y @ r')"
  proof (cases "message_start_sent g")
    case True
    with assms show ?thesis by (simp add: send_message_start_def)
  next
    case False
    with assms(1) have o: "y = []" "r = []"
      "scan (- 1, False) (map ev_kind (pending_output g)) = Some (cur g)"
      by (auto simp add: inv_def)
    from False assms(2) have g': "g' = g\<lparr>message_start_sent := True, pending_output := []\<rparr>"
      and r': "r' = r @ [message_start_event args n] @ pending_output g"
      by (auto simp add: send_message_start_def)
    show ?thesis
      unfolding inv_def using o by (simp add: g' r' cur_def)
  qed
  show "cur g' = cur g"
    using assms(2) by (auto simp add: send_message_start_def cur_def split: if_splits)
  show "message_start_sent g'"
    using assms(2) by (auto simp add: send_message_start_def split: if_splits)
qed

lemma inv_state_update:
  assumes "inv g out" "current_block_index s = current_block_index (state g)"
    "current_block_type s = current_block_type (state g)"
  shows "inv (g\<lparr>state := s\<rparr>) out"
proof -
  have "cur (g\<lparr>state := s\<rparr>) = cur g"
    using assms(2,3) by (simp add: cur_def)
  moreover have "message_start_sent (g\<lparr>state := s\<rparr>) = message_start_sent g"
    "pending_output (g\<lparr>state := s\<rparr>) = pending_output g"
    by simp_all
  ultimately show ?thesis
    using assms(1) unfolding inv_def by (simp only:)
qed

lemma capture_usage_block:
  assumes "capture_usage lib usage s = Inr s'"
  shows "current_block_index s' = current_block_index s"
    and "current_block_type s' = current_block_type s"
  using assms
  by (auto simp add: capture_usage_def bind_res_def split: if_splits sum.splits)

lemma inv_chunk_head:
  assumes "inv g y" "chunk_head lib args data g = Inr (cp, (g', r'))"
  shows "inv g' (y @ r')"
proof -
  from assms(2) obtain d response candidate s where
    cu: "capture_usage lib (pick_usage_metadata response candidate) (state g) = Inr s" and
    res: "(g', r') = (if has_input_tokens s \<and> \<not> message_start_sent (g\<lparr>state := s\<rparr>)
                      then send_message_start args (input_tokens s) (g\<lparr>state := s\<rparr>, [])
                      else (g\<lparr>state := s\<rparr>, []))"
    unfolding chunk_head_def
    by (auto simp add: bind_res_def Let_def split: json.splits sum.splits)
  have i1: "inv (g\<lparr>state := s\<rparr>) (y @ [])"
    using assms(1) capture_usage_block [OF cu] by (simp add: inv_state_update)
  show ?thesis
  proof (cases "has_input_tokens s \<and> \<not> message_start_sent (g\<lparr>state := s\<rparr>)")
    case True
    with res have "send_message_start args (input_tokens s) (g\<lparr>state := s\<rparr>, []) = (g', r')"
      by simp
    from inv_send_message_start(1) [OF i1 this] show ?thesis .
  next
    case False
    with res have "g' = g\<lparr>state := s\<rparr>" "r' = []" by auto
    with i1 show ?thesis by simp
  qed
qed

lemma inv_process_line:
  assumes "inv g y" "process_line lib args line g = Inr (g', r, stop)"
  shows "inv g' (y @ r)"
proof (cases "line = [] \<or> \<not> startswith line ''data: ''")
  case True
  with assms show ?thesis by (simp add: process_line_def)
next
  case False
  define raw where "raw = strip (drop 6 line)"
  show ?thesis
  proof (cases "raw = ''[DONE]''")
    case True
    with assms False show ?thesis by (simp add: process_line_def raw_def)
  next
    case nd: False
    show ?thesis
    proof (cases "json_loads lib raw")
      case None
      with assms False nd show ?thesis by (simp add: process_line_def raw_def)
    next
      case (Some data)
      from assms(2) False nd Some obtain candidate parts g1 r1 ps g2 r2 where
        h: "chunk_head lib args data g = Inr ((candidate, parts), (g1, r1))" and
        it: "py_iter parts = Inr ps" and
        pp: "process_parts lib args ps (g1, r1) = Inr (g2, r2)" and
        res: "(g', r) = (if truthy (dict_get candidate ''finishReason'' JNull)
                then (g2\<lparr>state := (state g2)\<lparr>finish_reason :=
                              Some (py_str (dict_get candidate ''finishReason'' JNull))\<rparr>\<rparr>, r2)
                else (g2, r2))"
        unfolding process_line_def raw_def [symmetric]
        by (auto simp add: Let_def bind_res_def split: sum.splits if_splits)
      have "inv g1 (y @ r1)"
        using assms(1) h by (rule inv_chunk_head)
      then have i2: "inv g2 (y @ r2)"
        using proper_process_parts [OF pp] by (rule inv_proper)
      show ?thesis
      proof (cases "truthy (dict_get candidate ''finishReason'' JNull)")
        case True
        with res have "g' = g2\<lparr>state := (state g2)\<lparr>finish_reason :=
                              Some (py_str (dict_get candidate ''finishReason'' JNull))\<rparr>\<rparr>" "r = r2"
          by auto
        with i2 show ?thesis by (simp add: inv_state_update)
      next
        case False
        with res i2 show ?thesis by simp
      qed
    qed
  qed
qed

lemma inv_run_lines:
  "inv g y \<Longrightarrow> run_lines lib args g y lines = Inr (g', y') \<Longrightarrow> inv g' y'"
proof (induction lines arbitrary: g y)
  case Nil
  then show ?case by simp
next
  case (Cons line lines)
  from Cons.prems(2) obtain g1 r stop where
    pl: "process_line lib args line g = Inr (g1, r, stop)" and
    rest: "(if stop then Inr (g1, y @ r) else run_lines lib args g1 (y @ r) lines) = Inr (g', y')"
    by (auto split: sum.splits)
  have i1: "inv g1 (y @ r)"
    using Cons.prems(1) pl by (rule inv_process_line)
  show ?case
  proof (cases stop)
    case True
    with rest i1 show ?thesis by simp
  next
    case False
    with rest have "run_lines lib args g1 (y @ r) lines = Inr (g', y')" by simp
    from Cons.IH [OF i1 this] show ?thesis .
  qed
qed

section \<open>The end of the stream\<close>

text \<open>
  What the epilogue does before it sends \<open>message_delta\<close>: flush the thinking buffer, close
  the open block, send \<open>message_start\<close> if it was not sent.
\<close>

definition epilogue_blocks :: "Args \<Rightarrow> Generator \<Rightarrow> Generator \<times> event list" where
  "epilogue_blocks args g =
     (let gr = (g, []);
          gr = (if thinking_text_buffer g \<noteq> [] then
                  (let (g, out) = close_current gr;
                       (evt, s) = open_text_block (state g);
                       gr = emit evt (g\<lparr>state := s\<rparr>, out)
                   in emit (block_delta_event (current_block_index s)
                              (JDict [(''type'', JStr ''text_delta''),
                                      (''text'', JStr (''<assistant_thinking>'' @ [CHR 0x0A] @
                                                       thinking_text_buffer g @
                                                       ''</assistant_thinking>''))])) gr)
                else gr)
      in close_current gr)"

lemma epilogue_eq:
  "epilogue args g =
     (let gr = epilogue_blocks args g;
          (g, out) = (if \<not> message_start_sent (fst gr)
                      then send_message_start args (initial_input_tokens_int args) gr
                      else gr)
      in out @ [message_delta_event args (state g), sse_event ''message_stop''
                  (JDict [(''type'', JStr ''message_stop'')])])"
  by (simp add: epilogue_def epilogue_blocks_def Let_def)

lemma proper_epilogue_blocks:
  "proper (g, []) (epilogue_blocks args g)" "\<not> snd (cur (fst (epilogue_blocks args g)))"
proof -
  define gr1 where "gr1 =
     (if thinking_text_buffer g \<noteq> [] then
        (let (g, out) = close_current (g, []);
             (evt, s) = open_text_block (state g);
             gr = emit evt (g\<lparr>state := s\<rparr>, out)
         in emit (block_delta_event (current_block_index s)
                    (JDict [(''type'', JStr ''text_delta''),
                            (''text'', JStr (''<assistant_thinking>'' @ [CHR 0x0A] @
                                             thinking_text_buffer g @
                                             ''</assistant_thinking>''))])) gr)
      else (g, []))"
  have eb: "epilogue_blocks args g = close_current gr1"
    by (simp add: epilogue_blocks_def gr1_def Let_def)
  have p1: "proper (g, []) gr1"
  proof (cases "thinking_text_buffer g \<noteq> []")
    case True
    obtain g1 r1 where c: "close_current (g, []) = (g1, r1)" by (cases "close_current (g, [])")
    obtain evt s where ob: "open_text_block (state g1) = (evt, s)"
      by (cases "open_text_block (state g1)")
    define mid where "mid = emit evt (g1\<lparr>state := s\<rparr>, r1)"
    have m: "proper (g, []) mid" "snd (cur (fst mid))"
      unfolding mid_def using proper_reopen_text [OF c ob] by simp_all
    have idx: "current_block_index s = current_block_index (state (fst mid))"
      by (simp add: mid_def emit_def)
    have "gr1 = emit (block_delta_event (current_block_index (state (fst mid)))
                    (JDict [(''type'', JStr ''text_delta''),
                            (''text'', JStr (''<assistant_thinking>'' @ [CHR 0x0A] @
                                             thinking_text_buffer g1 @
                                             ''</assistant_thinking>''))])) mid"
      using True by (simp add: gr1_def c ob Let_def mid_def [symmetric] idx)
    then have "proper mid gr1"
      using m(2) by (simp add: proper_delta_pair)
    with m(1) show ?thesis by (rule proper_trans)
  next
    case False
    then show ?thesis by (simp add: gr1_def proper_refl)
  qed
  show "proper (g, []) (epilogue_blocks args g)"
    unfolding eb using p1 proper_close_current by (rule proper_trans)
  show "\<not> snd (cur (fst (epilogue_blocks args g)))"
    unfolding eb by (simp add: cur_close_current)
qed

text \<open>
  The output of a run that ends normally: \<open>message_start\<close>, a closed block sequence, and
  the two final events, \<open>message_delta\<close> carrying the usage of the final state.
\<close>

lemma epilogue_shape:
  assumes "inv g y"
  obtains ms body s where
    "y @ epilogue args g =
       ms # body @ [message_delta_event args s, sse_event ''message_stop''
                      (JDict [(''type'', JStr ''message_stop'')])]"
    "ev_kind ms = MStart"
    "\<exists>j. scan (- 1, False) (map ev_kind body) = Some (j, False)"
    "has_input_tokens s = has_input_tokens (state g)"
    "input_tokens s = input_tokens (state g)"
    "if message_start_sent g then y \<noteq> [] \<and> ms = hd y
     else ms = message_start_event args (initial_input_tokens_int args)"
proof -
  obtain g1 r1 where eb: "epilogue_blocks args g = (g1, r1)"
    by (cases "epilogue_blocks args g")
  have p: "proper (g, []) (g1, r1)" and closed: "\<not> snd (cur g1)"
    using proper_epilogue_blocks [where g = g and args = args] eb by simp_all
  have "inv g (y @ [])"
    using assms by simp
  from inv_proper [OF this p] have i1: "inv g1 (y @ r1)" .
  from p obtain evs where a: "adds (g, []) (g1, r1) evs"
    unfolding proper_def by auto
  then have su: "same_usage g g1"
    by (simp add: adds_def)
  obtain g2 r2 where fin: "(if \<not> message_start_sent g1
                      then send_message_start args (initial_input_tokens_int args) (g1, r1)
                      else (g1, r1)) = (g2, r2)"
    by (cases "if \<not> message_start_sent g1
                      then send_message_start args (initial_input_tokens_int args) (g1, r1)
                      else (g1, r1)")
  have ep: "epilogue args g = r2 @ [message_delta_event args (state g2), sse_event ''message_stop''
                  (JDict [(''type'', JStr ''message_stop'')])]"
    using fin by (simp add: epilogue_eq eb Let_def)
  have fin_facts: "inv g2 (y @ r2) \<and> cur g2 = cur g1 \<and> message_start_sent g2 \<and>
                  state g2 = state g1"
  proof (cases "message_start_sent g1")
    case True
    with fin have "g2 = g1" "r2 = r1" by simp_all
    with i1 True show ?thesis by simp
  next
    case False
    with fin have sm: "send_message_start args (initial_input_tokens_int args) (g1, r1) = (g2, r2)"
      by simp
    have "state g2 = state g1"
      using sm False by (auto simp add: send_message_start_def)
    with inv_send_message_start [OF i1 sm] show ?thesis by simp
  qed
  then have i2: "inv g2 (y @ r2)" and c2: "cur g2 = cur g1" and sent2: "message_start_sent g2"
    and st2: "state g2 = state g1"
    by simp_all
  from i2 sent2 obtain ms body where
    o: "y @ r2 = ms # body" "ev_kind ms = MStart"
       "scan (- 1, False) (map ev_kind body) = Some (cur g2)"
    by (auto simp add: inv_def)
  have first: "if message_start_sent g then y \<noteq> [] \<and> ms = hd y
     else ms = message_start_event args (initial_input_tokens_int args)"
  proof (cases "message_start_sent g")
    case True
    with assms obtain ms' body' where "y = ms' # body'"
      by (auto simp add: inv_def)
    with o(1) True show ?thesis by simp
  next
    case False
    with assms have y: "y = []" by (simp add: inv_def)
    from False su have ns: "\<not> message_start_sent g1" by (simp add: same_usage_def)
    from a False have "r1 = []" by (simp add: adds_def)
    with fin ns have "r2 = message_start_event args (initial_input_tokens_int args) # pending_output g1"
      by (auto simp add: send_message_start_def)
    with o(1) y False show ?thesis by simp
  qed
  show ?thesis
  proof (rule that [of ms body "state g2"])
    show "y @ epilogue args g =
       ms # body @ [message_delta_event args (state g2), sse_event ''message_stop''
                      (JDict [(''type'', JStr ''message_stop'')])]"
    proof -
      have "y @ epilogue args g =
              (y @ r2) @ [message_delta_event args (state g2), sse_event ''message_stop''
                      (JDict [(''type'', JStr ''message_stop'')])]"
        by (simp add: ep)
      then show ?thesis
        by (simp only: o(1) append_Cons)
    qed
    show "ev_kind ms = MStart" by (rule o(2))
    show "\<exists>j. scan (- 1, False) (map ev_kind body) = Some (j, False)"
      using o(3) c2 closed by (cases "cur g1") auto
    show "has_input_tokens (state g2) = has_input_tokens (state g)"
      using su st2 by (simp add: same_usage_def)
    show "input_tokens (state g2) = input_tokens (state g)"
      using su st2 by (simp add: same_usage_def)
    show "if message_start_sent g then y \<noteq> [] \<and> ms = hd y
     else ms = message_start_event args (initial_input_tokens_int args)"
      by (rule first)
  qed
qed

lemma valid_stream_epilogue:
  assumes "inv g y"
  shows "valid_stream (y @ epilogue args g)"
proof -
  from assms obtain ms body s where
    o: "y @ epilogue args g =
       ms # body @ [message_delta_event args s, sse_event ''message_stop''
                      (JDict [(''type'', JStr ''message_stop'')])]"
       "ev_kind ms = MStart"
       "\<exists>j. scan (- 1, False) (map ev_kind body) = Some (j, False)"
    by (rule epilogue_shape)
  from o(3) obtain j where "scan (- 1, False) (map ev_kind body) = Some (j, False)" ..
  from scan_blocks [OF this] obtain ds where "map ev_kind body = blocks 0 ds"
    by auto
  then have "map ev_kind (y @ epilogue args g) = MStart # blocks 0 ds @ [MDelta, MStop]"
    using o(2) by (simp add: o(1))
  then show ?thesis
    unfolding valid_stream_def by (rule exI)
qed



section \<open>A sample upstream\<close>

text \<open>
  A library whose \<open>json.loads\<close> knows four chunks by name: \<open>c1\<close> reports 5 prompt tokens
  and the text \<open>Hi\<close>, \<open>c2\<close> has more text and a finish reason, \<open>u7\<close> reports 7 prompt
  tokens and no part, \<open>n3\<close> reports -3 prompt tokens and no part. Every other text is not
  JSON for it.
\<close>

definition sample_chunks :: "(string \<times> json) list" where
  "sample_chunks =
     [(''c1'', JDict [(''response'', JDict
         [(''usageMetadata'', JDict [(''promptTokenCount'', JInt 5)]),
          (''candidates'', JList [JDict [(''content'', JDict
             [(''parts'', JList [JDict [(''text'', JStr ''Hi'')]])])]])])]),
      (''c2'', JDict [(''response'', JDict
         [(''candidates'', JList [JDict [(''content'', JDict
             [(''parts'', JList [JDict [(''text'', JStr '' there'')]])]),
           (''finishReason'', JStr ''STOP'')]])])]),
      (''u7'', JDict [(''response'', JDict
         [(''usageMetadata'', JDict [(''promptTokenCount'', JInt 7)])])]),
      (''n3'', JDict [(''response'', JDict
         [(''usageMetadata'', JDict [(''promptTokenCount'', JInt (- 3))])])])]"

definition sample_lib :: Lib where
  "sample_lib =
     \<lparr>json_loads = map_of sample_chunks, int_of_str = (\<lambda>s. Inl ValueError),
      int_of_float = (\<lambda>s. Inl ValueError), json_dumps = py_repr, exc_text = (\<lambda>e. ''error''),
      uuid4_hex = (\<lambda>i. ''0000''), remove_nulls_for_tool_input = Inr\<rparr>"

definition sample_args :: Args where
  "sample_args =
     \<lparr>model = ''m'', message_id = ''msg_1'', initial_input_tokens = 3,
      client_thinking_enabled = True, thinking_to_text = False\<rparr>"

text \<open>
  C1. When the translator consumes a finite sequence of lines without raising, the events
  it yields are one \<open>message_start\<close>, then complete content blocks with the indices
  \<open>0, 1, 2, \<dots>\<close> in this order (each one \<open>content_block_start\<close>, any number of
  \<open>content_block_delta\<close> and one \<open>content_block_stop\<close>, all with the index of the block),
  then one \<open>message_delta\<close> and one \<open>message_stop\<close>, and nothing else.
\<close>

theorem stream_grammar:
  assumes "\<not> raises lib args lines"
  shows "valid_stream (antigravity_sse_to_anthropic_sse lib args lines)"
proof -
  from assms obtain g y where run: "run_lines lib args init_generator [] lines = Inr (g, y)"
    by (auto simp add: raises_def split: sum.splits)
  have "inv g y"
    using inv_init run by (rule inv_run_lines)
  then have "valid_stream (y @ epilogue args g)"
    by (rule valid_stream_epilogue)
  then show ?thesis
    by (simp add: antigravity_sse_to_anthropic_sse_def run)
qed

theorem stream_grammar_witness:
  "\<not> raises sample_lib sample_args [''data: c1'', ''data: c2''] \<and>
   valid_stream
     (antigravity_sse_to_anthropic_sse sample_lib sample_args [''data: c1'', ''data: c2'']) \<and>
   map ev_kind
     (antigravity_sse_to_anthropic_sse sample_lib sample_args [''data: c1'', ''data: c2''])
   = [MStart, BStart 0, BDelta 0, BDelta 0, BStop 0, MDelta, MStop]"
proof -
  have nr: "\<not> raises sample_lib sample_args [''data: c1'', ''data: c2'']"
    by code_simp
  have "map ev_kind
     (antigravity_sse_to_anthropic_sse sample_lib sample_args [''data: c1'', ''data: c2''])
   = [MStart, BStart 0, BDelta 0, BDelta 0, BStop 0, MDelta, MStop]"
    by code_simp
  with nr stream_grammar [OF nr] show ?thesis
    by (intro conjI)
qed

section \<open>Lines the translator passes over\<close>







section \<open>Input tokens at both ends of the stream\<close>

text \<open>
  The \<open>input_tokens\<close> an event carries: \<open>data["message"]["usage"]["input_tokens"]\<close> in
  \<open>message_start\<close>, \<open>data["usage"]["input_tokens"]\<close> in every other event.
\<close>

definition usage_input_tokens :: "json \<Rightarrow> json option" where
  "usage_input_tokens data =
     (case data of
        JDict d \<Rightarrow> (case map_of d ''usage'' of Some (JDict u) \<Rightarrow> map_of u ''input_tokens'' | _ \<Rightarrow> None)
      | _ \<Rightarrow> None)"

definition event_input_tokens :: "event \<Rightarrow> json option" where
  "event_input_tokens ev =
     (if fst ev = ''message_start''
      then (case snd ev of
              JDict d \<Rightarrow> (case map_of d ''message'' of Some m \<Rightarrow> usage_input_tokens m | None \<Rightarrow> None)
            | _ \<Rightarrow> None)
      else usage_input_tokens (snd ev))"

text \<open>
  The usage metadata the loop body picks for a line, empty for a line it passes over, for
  \<open>[DONE]\<close>, and for a chunk on which it raises before it reads the usage; and the
  \<open>promptTokenCount\<close> the line reports, if it reports one.
\<close>

definition line_usage :: "Lib \<Rightarrow> string \<Rightarrow> dict" where
  "line_usage lib line =
     (if line = [] \<or> \<not> startswith line ''data: '' \<or> strip (drop 6 line) = ''[DONE]'' then []
      else case json_loads lib (strip (drop 6 line)) of
             Some (JDict d) \<Rightarrow>
               (case get_dict d ''response'' of
                  Inr response \<Rightarrow>
                    (case first_candidate response of
                       Inr candidate \<Rightarrow> pick_usage_metadata response candidate
                     | Inl _ \<Rightarrow> [])
                | Inl _ \<Rightarrow> [])
           | _ \<Rightarrow> [])"

definition line_prompt_tokens :: "Lib \<Rightarrow> string \<Rightarrow> json option" where
  "line_prompt_tokens lib line = map_of (line_usage lib line) ''promptTokenCount''"

text \<open>
  The invariant of the loop when every line that reports a \<open>promptTokenCount\<close> reports
  \<open>v\<close>: the state holds \<open>v\<close> once it holds a count, \<open>message_start\<close> was sent exactly when
  it holds one, and the first event out is then \<open>message_start\<close> with \<open>v\<close>.
\<close>

definition tokens_inv :: "int \<Rightarrow> Args \<Rightarrow> Generator \<Rightarrow> event list \<Rightarrow> bool" where
  "tokens_inv v args g out \<longleftrightarrow>
     message_start_sent g = has_input_tokens (state g) \<and>
     (if message_start_sent g
      then input_tokens (state g) = v \<and> out \<noteq> [] \<and> hd out = message_start_event args v
      else out = [])"

lemma event_input_tokens_simps [simp]:
  "event_input_tokens (message_start_event args n) = Some (JInt n)"
  "event_input_tokens (message_delta_event args s) =
     Some (JInt (if has_input_tokens s then input_tokens s else initial_input_tokens_int args))"
  by (simp_all add: event_input_tokens_def usage_input_tokens_def message_start_event_def
        message_delta_event_def sse_event_def Let_def)

lemma event_name_simps [simp]:
  "fst (message_start_event args n) = ''message_start''"
  "fst (message_delta_event args s) = ''message_delta''"
  by (simp_all add: message_start_event_def message_delta_event_def sse_event_def Let_def)

lemma tokens_inv_init: "tokens_inv v args init_generator []"
  by (simp add: tokens_inv_def init_generator_def init_state_def)

lemma capture_usage_tokens:
  assumes "capture_usage lib usage s = Inr s'"
    and "\<forall>p. map_of usage ''promptTokenCount'' = Some p \<longrightarrow> int_or_zero lib p = Inr v"
  shows "if map_of usage ''promptTokenCount'' = None
         then has_input_tokens s' = has_input_tokens s \<and> input_tokens s' = input_tokens s
         else has_input_tokens s' \<and> input_tokens s' = v"
proof (cases "map_of usage ''promptTokenCount''")
  case None
  with assms(1) show ?thesis
    by (auto simp add: capture_usage_def bind_res_def split: if_splits sum.splits)
next
  case (Some p)
  with assms(2) have "int_or_zero lib (dict_get usage ''promptTokenCount'' (JInt 0)) = Inr v"
    by (simp add: dict_get_def)
  with assms(1) Some show ?thesis
    by (auto simp add: capture_usage_def bind_res_def split: if_splits sum.splits)
qed

lemma tokens_inv_adds:
  assumes "tokens_inv v args g (y @ r)" "adds (g, r) (g', r') evs"
  shows "tokens_inv v args g' (y @ r')"
proof (cases "message_start_sent g")
  case True
  with assms(2) have r': "r' = r @ evs" and su: "same_usage g g'"
    by (simp_all add: adds_def)
  from assms(1) True have ne: "y @ r \<noteq> []"
    and first: "hd (y @ r) = message_start_event args v"
    and rest: "has_input_tokens (state g)" "input_tokens (state g) = v"
    by (simp_all add: tokens_inv_def)
  have eq: "y @ r' = (y @ r) @ evs"
    by (simp add: r')
  have "hd ((y @ r) @ evs) = hd (y @ r)"
    using ne by (rule hd_append2)
  with first have "hd (y @ r') = message_start_event args v"
    by (simp only: eq)
  moreover have "y @ r' \<noteq> []"
    using ne by (auto simp add: eq)
  ultimately have "y @ r' \<noteq> []" "hd (y @ r') = message_start_event args v"
    by blast+
  with True su rest show ?thesis
    by (simp add: tokens_inv_def same_usage_def)
next
  case False
  with assms(2) have "r' = r" "same_usage g g'"
    by (simp_all add: adds_def)
  with assms(1) False show ?thesis
    by (auto simp add: tokens_inv_def same_usage_def)
qed

lemma tokens_inv_proper:
  assumes "tokens_inv v args g (y @ r)" "proper (g, r) (g', r')"
  shows "tokens_inv v args g' (y @ r')"
proof -
  from assms(2) obtain evs where "adds (g, r) (g', r') evs"
    unfolding proper_def by auto
  with assms(1) show ?thesis by (rule tokens_inv_adds)
qed

lemma tokens_inv_finish:
  assumes "tokens_inv v args g out"
  shows "tokens_inv v args (g\<lparr>state := (state g)\<lparr>finish_reason := fr\<rparr>\<rparr>) out"
  using assms by (simp add: tokens_inv_def)

lemma tokens_inv_chunk_head:
  assumes ti: "tokens_inv v args g y"
    and ch: "chunk_head lib args (JDict d) g = Inr (cp, (g', r'))"
    and rep: "\<forall>response candidate p.
                get_dict d ''response'' = Inr response \<longrightarrow>
                first_candidate response = Inr candidate \<longrightarrow>
                map_of (pick_usage_metadata response candidate) ''promptTokenCount'' = Some p \<longrightarrow>
                int_or_zero lib p = Inr v"
  shows "tokens_inv v args g' (y @ r')"
proof -
  from ch obtain response candidate s where
    rs: "get_dict d ''response'' = Inr response" and
    ca: "first_candidate response = Inr candidate" and
    cu: "capture_usage lib (pick_usage_metadata response candidate) (state g) = Inr s" and
    res: "(g', r') = (if has_input_tokens s \<and> \<not> message_start_sent (g\<lparr>state := s\<rparr>)
                      then send_message_start args (input_tokens s) (g\<lparr>state := s\<rparr>, [])
                      else (g\<lparr>state := s\<rparr>, []))"
    unfolding chunk_head_def
    by (auto simp add: bind_res_def Let_def split: sum.splits)
  define usage where "usage = pick_usage_metadata response candidate"
  have "\<forall>p. map_of usage ''promptTokenCount'' = Some p \<longrightarrow> int_or_zero lib p = Inr v"
    using rep rs ca unfolding usage_def by blast
  from capture_usage_tokens [OF cu [folded usage_def] this]
  have tok: "if map_of usage ''promptTokenCount'' = None
         then has_input_tokens s = has_input_tokens (state g) \<and>
              input_tokens s = input_tokens (state g)
         else has_input_tokens s \<and> input_tokens s = v" .
  show ?thesis
  proof (cases "message_start_sent g")
    case True
    with ti have h: "has_input_tokens (state g)" "input_tokens (state g) = v"
      "y \<noteq> []" "hd y = message_start_event args v"
      by (simp_all add: tokens_inv_def)
    from tok h have s: "has_input_tokens s" "input_tokens s = v"
      by (auto split: if_splits)
    from res True have "g' = g\<lparr>state := s\<rparr>" "r' = []"
      by simp_all
    with True h s show ?thesis
      by (simp add: tokens_inv_def)
  next
    case False
    with ti have h: "\<not> has_input_tokens (state g)" "y = []"
      by (simp_all add: tokens_inv_def)
    show ?thesis
    proof (cases "has_input_tokens s")
      case True
      with tok h have sv: "input_tokens s = v"
        by (auto split: if_splits)
      from res True False have "g' = g\<lparr>state := s, message_start_sent := True, pending_output := []\<rparr>"
        "r' = [message_start_event args v] @ pending_output g"
        by (simp_all add: send_message_start_def sv)
      with True sv h show ?thesis
        by (simp add: tokens_inv_def)
    next
      case nh: False
      with res have "g' = g\<lparr>state := s\<rparr>" "r' = []"
        by simp_all
      with nh False h show ?thesis
        by (simp add: tokens_inv_def)
    qed
  qed
qed

lemma tokens_inv_process_line:
  assumes ti: "tokens_inv v args g y"
    and pl: "process_line lib args line g = Inr (g', r, stop)"
    and rep: "\<forall>p. line_prompt_tokens lib line = Some p \<longrightarrow> int_or_zero lib p = Inr v"
  shows "tokens_inv v args g' (y @ r)"
proof (cases "line = [] \<or> \<not> startswith line ''data: ''")
  case True
  with ti pl show ?thesis by (simp add: process_line_def)
next
  case False
  define raw where "raw = strip (drop 6 line)"
  show ?thesis
  proof (cases "raw = ''[DONE]''")
    case True
    with ti pl False show ?thesis by (simp add: process_line_def raw_def)
  next
    case nd: False
    show ?thesis
    proof (cases "json_loads lib raw")
      case None
      with ti pl False nd show ?thesis by (simp add: process_line_def raw_def)
    next
      case (Some data)
      from pl False nd Some obtain candidate parts g1 r1 ps g2 r2 where
        h: "chunk_head lib args data g = Inr ((candidate, parts), (g1, r1))" and
        it: "py_iter parts = Inr ps" and
        pp: "process_parts lib args ps (g1, r1) = Inr (g2, r2)" and
        res: "(g', r) = (if truthy (dict_get candidate ''finishReason'' JNull)
                then (g2\<lparr>state := (state g2)\<lparr>finish_reason :=
                              Some (py_str (dict_get candidate ''finishReason'' JNull))\<rparr>\<rparr>, r2)
                else (g2, r2))"
        unfolding process_line_def raw_def [symmetric]
        by (auto simp add: Let_def bind_res_def split: sum.splits if_splits)
      from h obtain d where d: "data = JDict d"
        by (cases data) (simp_all add: chunk_head_def)
      have lu: "line_usage lib line = pick_usage_metadata response cand"
        if "get_dict d ''response'' = Inr response" "first_candidate response = Inr cand"
        for response cand
        using False nd Some that
        by (simp add: line_usage_def raw_def [symmetric] d)
      have "\<forall>response cand p.
                get_dict d ''response'' = Inr response \<longrightarrow>
                first_candidate response = Inr cand \<longrightarrow>
                map_of (pick_usage_metadata response cand) ''promptTokenCount'' = Some p \<longrightarrow>
                int_or_zero lib p = Inr v"
        using rep lu by (simp add: line_prompt_tokens_def)
      with ti h [unfolded d] have "tokens_inv v args g1 (y @ r1)"
        by (rule tokens_inv_chunk_head)
      then have i2: "tokens_inv v args g2 (y @ r2)"
        using proper_process_parts [OF pp] by (rule tokens_inv_proper)
      show ?thesis
      proof (cases "truthy (dict_get candidate ''finishReason'' JNull)")
        case True
        with res have "g' = g2\<lparr>state := (state g2)\<lparr>finish_reason :=
                              Some (py_str (dict_get candidate ''finishReason'' JNull))\<rparr>\<rparr>" "r = r2"
          by auto
        with i2 show ?thesis by (simp add: tokens_inv_finish)
      next
        case False
        with res i2 show ?thesis by simp
      qed
    qed
  qed
qed

lemma tokens_inv_run_lines:
  "tokens_inv v args g y \<Longrightarrow> run_lines lib args g y lines = Inr (g', y') \<Longrightarrow>
   \<forall>line\<in>set lines. \<forall>p. line_prompt_tokens lib line = Some p \<longrightarrow> int_or_zero lib p = Inr v \<Longrightarrow>
   tokens_inv v args g' y'"
proof (induction lines arbitrary: g y)
  case Nil
  then show ?case by simp
next
  case (Cons line lines)
  from Cons.prems(2) obtain g1 r stop where
    pl: "process_line lib args line g = Inr (g1, r, stop)" and
    rest: "(if stop then Inr (g1, y @ r) else run_lines lib args g1 (y @ r) lines) = Inr (g', y')"
    by (auto split: sum.splits)
  from Cons.prems(3)
  have here: "\<forall>p. line_prompt_tokens lib line = Some p \<longrightarrow> int_or_zero lib p = Inr v"
    and later: "\<forall>line\<in>set lines. \<forall>p. line_prompt_tokens lib line = Some p \<longrightarrow>
                  int_or_zero lib p = Inr v"
    by simp_all
  have i1: "tokens_inv v args g1 (y @ r)"
    using Cons.prems(1) pl here by (rule tokens_inv_process_line)
  show ?case
  proof (cases stop)
    case True
    with rest i1 show ?thesis by simp
  next
    case False
    with rest have "run_lines lib args g1 (y @ r) lines = Inr (g', y')" by simp
    from Cons.IH [OF i1 this later] show ?thesis .
  qed
qed

lemma same_tokens_run_lines:
  assumes run: "run_lines lib args init_generator [] lines = Inr (g, y)"
    and rep: "\<forall>line\<in>set lines. \<forall>p. line_prompt_tokens lib line = Some p \<longrightarrow>
                int_or_zero lib p = Inr v"
  shows "\<exists>ms body md n.
           y @ epilogue args g =
             ms # body @ [md, sse_event ''message_stop'' (JDict [(''type'', JStr ''message_stop'')])] \<and>
           fst ms = ''message_start'' \<and> fst md = ''message_delta'' \<and>
           event_input_tokens ms = Some (JInt n) \<and> event_input_tokens md = Some (JInt n) \<and>
           (n = v \<or> n = initial_input_tokens_int args)"
proof -
  have i: "inv g y"
    using inv_init run by (rule inv_run_lines)
  have t: "tokens_inv v args g y"
    using tokens_inv_init run rep by (rule tokens_inv_run_lines)
  from i obtain ms body s where
    o: "y @ epilogue args g =
       ms # body @ [message_delta_event args s, sse_event ''message_stop''
                      (JDict [(''type'', JStr ''message_stop'')])]"
       "has_input_tokens s = has_input_tokens (state g)"
       "input_tokens s = input_tokens (state g)"
       "if message_start_sent g then y \<noteq> [] \<and> ms = hd y
        else ms = message_start_event args (initial_input_tokens_int args)"
    by (rule epilogue_shape)
  show ?thesis
  proof (cases "message_start_sent g")
    case True
    with t have "has_input_tokens (state g)" "input_tokens (state g) = v"
      "hd y = message_start_event args v"
      by (simp_all add: tokens_inv_def)
    with o True have "ms = message_start_event args v"
      "event_input_tokens (message_delta_event args s) = Some (JInt v)"
      by simp_all
    with o(1) show ?thesis
      by (intro exI [of _ ms] exI [of _ body] exI [of _ "message_delta_event args s"] exI [of _ v])
         simp
  next
    case False
    with t have "\<not> has_input_tokens (state g)"
      by (simp add: tokens_inv_def)
    with o False have "ms = message_start_event args (initial_input_tokens_int args)"
      "event_input_tokens (message_delta_event args s) =
         Some (JInt (initial_input_tokens_int args))"
      by simp_all
    with o(1) show ?thesis
      by (intro exI [of _ ms] exI [of _ body] exI [of _ "message_delta_event args s"]
            exI [of _ "initial_input_tokens_int args"])
         simp
  qed
qed

text \<open>
  C2, as the code has it. When the translator does not raise and every line that reports a
  \<open>promptTokenCount\<close> reports one that \<^verbatim>\<open>int(... or 0)\<close> turns into the same number \<open>v\<close>,
  the events begin with \<open>message_start\<close> and end with \<open>message_delta\<close> and \<open>message_stop\<close>,
  and \<open>message_start\<close> and \<open>message_delta\<close> carry the same \<open>input_tokens\<close>; it is \<open>v\<close> or
  the estimate \<open>max(0, initial_input_tokens)\<close>, so it is non-negative when \<open>v\<close> is.
\<close>

theorem input_tokens_agree:
  assumes "\<not> raises lib args lines"
    and "\<forall>line\<in>set lines. \<forall>p. line_prompt_tokens lib line = Some p \<longrightarrow>
           int_or_zero lib p = Inr v"
  shows "\<exists>ms body md n.
           antigravity_sse_to_anthropic_sse lib args lines =
             ms # body @ [md, sse_event ''message_stop'' (JDict [(''type'', JStr ''message_stop'')])] \<and>
           fst ms = ''message_start'' \<and> fst md = ''message_delta'' \<and>
           event_input_tokens ms = Some (JInt n) \<and> event_input_tokens md = Some (JInt n) \<and>
           (n = v \<or> n = initial_input_tokens_int args) \<and> (0 \<le> v \<longrightarrow> 0 \<le> n)"
proof -
  from assms(1) obtain g y where run: "run_lines lib args init_generator [] lines = Inr (g, y)"
    by (auto simp add: raises_def split: sum.splits)
  from same_tokens_run_lines [OF run assms(2)] obtain ms body md n where
    o: "y @ epilogue args g =
             ms # body @ [md, sse_event ''message_stop'' (JDict [(''type'', JStr ''message_stop'')])]"
       "fst ms = ''message_start''" "fst md = ''message_delta''"
       "event_input_tokens ms = Some (JInt n)" "event_input_tokens md = Some (JInt n)"
       "n = v \<or> n = initial_input_tokens_int args"
    by blast
  have "0 \<le> initial_input_tokens_int args"
    by (simp add: initial_input_tokens_int_def)
  with o(6) have "0 \<le> v \<longrightarrow> 0 \<le> n"
    by auto
  moreover have "antigravity_sse_to_anthropic_sse lib args lines = y @ epilogue args g"
    by (simp add: antigravity_sse_to_anthropic_sse_def run)
  ultimately show ?thesis
    using o by (intro exI [of _ ms] exI [of _ body] exI [of _ md] exI [of _ n]) simp
qed

theorem input_tokens_agree_witness:
  "\<not> raises sample_lib sample_args [''data: c1'', ''data: c2''] \<and>
   line_prompt_tokens sample_lib ''data: c1'' = Some (JInt 5) \<and>
   line_prompt_tokens sample_lib ''data: c2'' = None \<and>
   (\<exists>ms body md n.
      antigravity_sse_to_anthropic_sse sample_lib sample_args [''data: c1'', ''data: c2''] =
        ms # body @ [md, sse_event ''message_stop'' (JDict [(''type'', JStr ''message_stop'')])] \<and>
      fst ms = ''message_start'' \<and> fst md = ''message_delta'' \<and>
      event_input_tokens ms = Some (JInt n) \<and> event_input_tokens md = Some (JInt n) \<and>
      (n = 5 \<or> n = initial_input_tokens_int sample_args) \<and> 0 \<le> n)"
proof -
  have nr: "\<not> raises sample_lib sample_args [''data: c1'', ''data: c2'']"
    by code_simp
  have l1: "line_prompt_tokens sample_lib ''data: c1'' = Some (JInt 5)"
    by code_simp
  have l2: "line_prompt_tokens sample_lib ''data: c2'' = None"
    by code_simp
  have rep: "\<forall>line\<in>set [''data: c1'', ''data: c2'']. \<forall>p.
               line_prompt_tokens sample_lib line = Some p \<longrightarrow> int_or_zero sample_lib p = Inr 5"
    by (simp add: l1 l2 int_or_zero_def)
  from input_tokens_agree [OF nr rep] nr l1 l2 show ?thesis
    by simp
qed

text \<open>
  The claim C2 as stated fails. When a second chunk reports another count after
  \<open>message_start\<close> was sent, \<open>message_start\<close> carries the first count and \<open>message_delta\<close>
  the last; and a negative count is passed on as it is.
\<close>

theorem input_tokens_agree_counterexample:
  "\<not> raises sample_lib sample_args [''data: c1'', ''data: u7''] \<and>
   map fst (antigravity_sse_to_anthropic_sse sample_lib sample_args [''data: c1'', ''data: u7''])
     = [''message_start'', ''content_block_start'', ''content_block_delta'',
        ''content_block_stop'', ''message_delta'', ''message_stop''] \<and>
   map event_input_tokens
     (antigravity_sse_to_anthropic_sse sample_lib sample_args [''data: c1'', ''data: u7''])
     = [Some (JInt 5), None, None, None, Some (JInt 7), None] \<and>
   \<not> raises sample_lib sample_args [''data: n3''] \<and>
   map fst (antigravity_sse_to_anthropic_sse sample_lib sample_args [''data: n3''])
     = [''message_start'', ''message_delta'', ''message_stop''] \<and>
   map event_input_tokens (antigravity_sse_to_anthropic_sse sample_lib sample_args [''data: n3''])
     = [Some (JInt (- 3)), Some (JInt (- 3)), None]"
  by code_simp

end
